theory Spec2Isabelle
  imports Main
begin

section \<open>Text normalizer: \<^verbatim>\<open>CerebrasRAGAgent._clean\<close>\<close>

text \<open>
  Python strings are sequences of code points; the model uses \<^typ>\<open>string\<close> with one
  \<^typ>\<open>char\<close> per code point, which covers the code points below 256. The character
  classes are those of Python's \<^verbatim>\<open>re\<close> module on \<^verbatim>\<open>str\<close> patterns over that range:
  \<^verbatim>\<open>\s\<close> and \<^verbatim>\<open>str.strip\<close> use \<^verbatim>\<open>str.isspace\<close>, \<^verbatim>\<open>\w\<close> is \<^verbatim>\<open>str.isalnum\<close> or
  an underscore, \<^verbatim>\<open>[A-Za-z]\<close> is the ASCII letters.
\<close>

definition is_space :: "char \<Rightarrow> bool" where
  "is_space c = (let n = (of_char c :: nat) in
     (9 \<le> n \<and> n \<le> 13) \<or> (28 \<le> n \<and> n \<le> 32) \<or> n = 133 \<or> n = 160)"

definition is_letter :: "char \<Rightarrow> bool" where
  "is_letter c = (let n = (of_char c :: nat) in
     (65 \<le> n \<and> n \<le> 90) \<or> (97 \<le> n \<and> n \<le> 122))"

definition is_word :: "char \<Rightarrow> bool" where
  "is_word c = (let n = (of_char c :: nat) in
     (48 \<le> n \<and> n \<le> 57) \<or> (65 \<le> n \<and> n \<le> 90) \<or> (97 \<le> n \<and> n \<le> 122) \<or> n = 95
     \<or> n = 170 \<or> n = 178 \<or> n = 179 \<or> n = 181 \<or> n = 185 \<or> n = 186
     \<or> (188 \<le> n \<and> n \<le> 190) \<or> (192 \<le> n \<and> n \<le> 214) \<or> (216 \<le> n \<and> n \<le> 246)
     \<or> (248 \<le> n \<and> n \<le> 255))"

text \<open>
  \<^verbatim>\<open>\b\<close> holds between two positions when exactly one side is a word character; the
  start and the end of the text count as non-word.
\<close>

definition word_boundary :: "char option \<Rightarrow> char option \<Rightarrow> bool" where
  "word_boundary prev nxt =
     ((case prev of None \<Rightarrow> False | Some p \<Rightarrow> is_word p)
      \<noteq> (case nxt of None \<Rightarrow> False | Some c \<Rightarrow> is_word c))"

text \<open>
  \<^verbatim>\<open>re.sub(pattern, repl, text)\<close>: scan from the left; where the pattern matches, emit the
  replacement of the matched text and go on behind the match; elsewhere copy one character.
  A matcher gets the character before the position (for \<^verbatim>\<open>\b\<close>) and the rest of the text,
  and returns the length of the match the backtracking engine finds there. None of the
  patterns of \<^verbatim>\<open>_clean\<close> matches the empty string; a matcher answering 0 is treated as
  no match.
\<close>

type_synonym matcher = "char option \<Rightarrow> string \<Rightarrow> nat option"

function re_sub :: "matcher \<Rightarrow> (string \<Rightarrow> string) \<Rightarrow> char option \<Rightarrow> string \<Rightarrow> string" where
  "re_sub m repl prev [] = []"
| "re_sub m repl prev (c # cs) =
     (case m prev (c # cs) of
        None \<Rightarrow> c # re_sub m repl (Some c) cs
      | Some n \<Rightarrow>
          if n = 0 \<or> n > length (c # cs) then c # re_sub m repl (Some c) cs
          else repl (take n (c # cs))
               @ re_sub m repl (Some (last (take n (c # cs)))) (drop n (c # cs)))"
  by pat_completeness auto
termination
  by (relation "measure (\<lambda>(m, repl, prev, s). length s)") auto

definition span_len :: "(char \<Rightarrow> bool) \<Rightarrow> string \<Rightarrow> nat" where
  "span_len P s = length (takeWhile P s)"

text \<open>
  \<^verbatim>\<open>(?:\b[A-Za-z]\s){2,}\b[A-Za-z]\<close>. \<open>units s\<close> counts the leading repetitions of
  \<^verbatim>\<open>[A-Za-z]\s\<close>; inside the repetition \<^verbatim>\<open>\b\<close> holds by itself, since the character
  before each letter is white space. The greedy repetition takes all \<open>n\<close> units; when no
  letter follows, the engine gives the last unit back and its letter closes the match.
\<close>

fun units :: "string \<Rightarrow> nat" where
  "units (a # w # rest) = (if is_letter a \<and> is_space w then Suc (units rest) else 0)"
| "units _ = 0"

definition m_spaced :: matcher where
  "m_spaced prev s =
     (case s of
        [] \<Rightarrow> None
      | c # _ \<Rightarrow>
          if \<not> word_boundary prev (Some c) then None
          else
            let n = units s; rest = drop (2 * n) s in
            if 2 \<le> n \<and> (case rest of [] \<Rightarrow> False | l # _ \<Rightarrow> is_letter l) then Some (2 * n + 1)
            else if 3 \<le> n then Some (2 * n - 1)
            else None)"

definition repl_spaced :: "string \<Rightarrow> string" where
  "repl_spaced g = filter (\<lambda>c. c \<noteq> CHR '' '') g"

text \<open>\<^verbatim>\<open>\s*_+\s*\<close>, replaced by one space.\<close>

definition m_underscores :: matcher where
  "m_underscores prev s =
     (let a = span_len is_space s;
          b = span_len (\<lambda>c. c = CHR ''_'') (drop a s);
          c = span_len is_space (drop (a + b) s)
      in if b = 0 then None else Some (a + b + c))"

text \<open>\<^verbatim>\<open>\s+\<close>, replaced by one space.\<close>

definition m_spaces :: matcher where
  "m_spaces prev s = (let a = span_len is_space s in if a = 0 then None else Some a)"

text \<open>\<^verbatim>\<open>\(\s+\<close>, replaced by the parenthesis; \<^verbatim>\<open>\s+\)\<close> likewise.\<close>

definition m_lparen :: matcher where
  "m_lparen prev s =
     (case s of
        [] \<Rightarrow> None
      | c # cs \<Rightarrow>
          if c = CHR ''('' \<and> 0 < span_len is_space cs then Some (1 + span_len is_space cs)
          else None)"

definition m_rparen :: matcher where
  "m_rparen prev s =
     (let a = span_len is_space s in
      if 0 < a \<and> (case drop a s of [] \<Rightarrow> False | c # _ \<Rightarrow> c = CHR '')'') then Some (a + 1)
      else None)"

text \<open>\<^verbatim>\<open>\s*([:;,.\$])\s*\<close>, replaced by group 1 and one space.\<close>

definition is_punct :: "char \<Rightarrow> bool" where
  "is_punct c = (c = CHR '':'' \<or> c = CHR '';'' \<or> c = CHR '','' \<or> c = CHR ''.'' \<or> c = CHR ''$'')"

definition m_punct :: matcher where
  "m_punct prev s =
     (let a = span_len is_space s in
      case drop a s of
        [] \<Rightarrow> None
      | p # rest \<Rightarrow> if is_punct p then Some (a + 1 + span_len is_space rest) else None)"

definition repl_punct :: "string \<Rightarrow> string" where
  "repl_punct g = (case dropWhile is_space g of [] \<Rightarrow> [] | p # _ \<Rightarrow> [p, CHR '' ''])"

definition remove_backslashes :: "string \<Rightarrow> string" where
  "remove_backslashes s = filter (\<lambda>c. c \<noteq> CHR 0x5C) s"

definition strip :: "string \<Rightarrow> string" where
  "strip s = rev (dropWhile is_space (rev (dropWhile is_space s)))"

definition clean :: "string \<Rightarrow> string" where
  "clean text0 =
     (let text1 = re_sub m_spaced repl_spaced None text0;
          text2 = re_sub m_underscores (\<lambda>_. '' '') None text1;
          text3 = re_sub m_spaces (\<lambda>_. '' '') None text2;
          text4 = re_sub m_lparen (\<lambda>_. ''('') None text3;
          text5 = re_sub m_rparen (\<lambda>_. '')'') None text4;
          text6 = re_sub m_punct repl_punct None text5;
          text7 = remove_backslashes text6
      in strip text7)"

section \<open>Data model: \<^verbatim>\<open>models.py\<close> and the documents of the vector store\<close>

record citation =
  source_id :: int
  quote :: string

record quoted_answer =
  answer :: string
  citations :: "citation list"

text \<open>
  A document's metadata is a dictionary; the keys this code reads or writes are fields
  here, \<open>None\<close> for a missing key.
\<close>

record doc_metadata =
  md_source :: "string option"
  md_title :: "string option"
  md_section :: "string option"
  md_content_type :: "string option"
  md_chunk_index :: "int option"
  md_total_chunks :: "int option"

record document =
  page_content :: string
  metadata :: doc_metadata

datatype message = HumanMessage string | AIMessage string

text \<open>An exception of class \<^verbatim>\<open>Exception\<close>, with the text that \<^verbatim>\<open>str(e)\<close> gives.\<close>

datatype exn = Exn string

fun str_exn :: "exn \<Rightarrow> string" where
  "str_exn (Exn msg) = msg"

text \<open>Decimal text of a number, as an f-string prints it.\<close>

definition digit_char :: "nat \<Rightarrow> char" where
  "digit_char d = char_of (48 + d)"

fun str_nat :: "nat \<Rightarrow> string" where
  "str_nat n = (if n < 10 then [digit_char n] else str_nat (n div 10) @ [digit_char (n mod 10)])"

declare str_nat.simps [simp del]

text \<open>\<^verbatim>\<open>sep.join(parts)\<close>.\<close>

fun join :: "string \<Rightarrow> string list \<Rightarrow> string" where
  "join sep [] = []"
| "join sep [p] = p"
| "join sep (p # q # ps) = p @ sep @ join sep (q # ps)"

text \<open>\<^verbatim>\<open>xs[i]\<close> of Python: a negative index counts from the end, anything else out of range raises.\<close>

definition py_index :: "'a list \<Rightarrow> int \<Rightarrow> exn + 'a" where
  "py_index xs i =
     (if 0 \<le> i \<and> i < int (length xs) then Inr (xs ! nat i)
      else if i < 0 \<and> - int (length xs) \<le> i then Inr (xs ! nat (int (length xs) + i))
      else Inl (Exn ''list index out of range''))"

section \<open>Effects: exceptions, state and the calls to outside services\<close>

text \<open>
  A computation takes the state and returns either the exception it raised or its value,
  with the new state. \<open>try_except\<close> is \<^verbatim>\<open>try: ... except Exception as e: ...\<close>.
\<close>

type_synonym ('a, 's) io = "'s \<Rightarrow> (exn + 'a) \<times> 's"

definition ret :: "'a \<Rightarrow> ('a, 's) io" where
  "ret x = (\<lambda>s. (Inr x, s))"

definition raise :: "exn \<Rightarrow> ('a, 's) io" where
  "raise e = (\<lambda>s. (Inl e, s))"

definition bind :: "('a, 's) io \<Rightarrow> ('a \<Rightarrow> ('b, 's) io) \<Rightarrow> ('b, 's) io" where
  "bind m f = (\<lambda>s. case m s of (Inl e, s') \<Rightarrow> (Inl e, s') | (Inr x, s') \<Rightarrow> f x s')"

definition try_except :: "('a, 's) io \<Rightarrow> (exn \<Rightarrow> ('a, 's) io) \<Rightarrow> ('a, 's) io" where
  "try_except m h = (\<lambda>s. case m s of (Inl e, s') \<Rightarrow> h e s' | (Inr x, s') \<Rightarrow> (Inr x, s'))"

text \<open>
  The calls that leave the process. Each one is recorded in the agent's call log, so that
  a statement can say which services a run touched.
\<close>

datatype call =
    SimilaritySearch string int
  | Rerank string int nat
  | ChainInvoke string string
  | LLMInvoke "message list"
  | GetState string
  | GraphInvoke string "message list"
  | GraphStream string "message list"

text \<open>
  The agent: \<^verbatim>\<open>self.graph\<close> is \<open>None\<close> until \<^verbatim>\<open>initialize_graph\<close> has run, and holds
  the conversation graph with its checkpointed memory afterwards. The graph is LangGraph's;
  its state is a type parameter.
\<close>

record 'g agent =
  graph :: "'g option"
  calls :: "call list"

text \<open>
  The outside services, each with the result it gives or the exception it raises:
  the Pinecone similarity search (query, \<open>k\<close>), the Cohere reranking retriever over the store
  (built and invoked; query, \<open>k\<close>, \<open>top_n\<close>), the
  presence of \<^verbatim>\<open>COHERE_API_KEY\<close>, the prompt chain with structured output (context,
  question), the same chain on the plain model, the plain model on a message list, and the
  three operations of the conversation graph.
\<close>

record 'g services =
  similarity_search :: "string \<Rightarrow> int \<Rightarrow> exn + document list"
  rerank_invoke :: "string \<Rightarrow> int \<Rightarrow> nat \<Rightarrow> exn + document list"
  cohere_api_key :: bool
  chain_invoke :: "string \<Rightarrow> string \<Rightarrow> exn + quoted_answer"
  chain_invoke_plain :: "string \<Rightarrow> string \<Rightarrow> exn + string"
  llm_invoke :: "message list \<Rightarrow> exn + string"
  graph_get_state :: "'g \<Rightarrow> string \<Rightarrow> exn + message list option"
  graph_invoke :: "'g \<Rightarrow> string \<Rightarrow> message list \<Rightarrow> (exn + message list) \<times> 'g"
  graph_stream :: "'g \<Rightarrow> string \<Rightarrow> message list \<Rightarrow> (message list list \<times> exn option) \<times> 'g"

definition external :: "call \<Rightarrow> exn + 'a \<Rightarrow> ('a, 'g agent) io" where
  "external c r = (\<lambda>ag. (r, ag\<lparr>calls := calls ag @ [c]\<rparr>))"

section \<open>The agent: \<^verbatim>\<open>rag_agent.py\<close>\<close>

definition format_docs_with_id :: "document list \<Rightarrow> string" where
  "format_docs_with_id docs =
     join [CHR 0x0A, CHR 0x0A, CHR ''-'', CHR ''-'', CHR ''-'', CHR 0x0A, CHR 0x0A]
       (map (\<lambda>(i, doc).
               let source = (case md_source (metadata doc) of None \<Rightarrow> ''Unknown source'' | Some v \<Rightarrow> v);
                   title = (case md_title (metadata doc) of None \<Rightarrow> ''Untitled'' | Some v \<Rightarrow> v);
                   snippet = clean (page_content doc)
               in ''Source ID: '' @ str_nat i @ [CHR 0x0A]
                  @ ''Document Title: '' @ title @ [CHR 0x0A]
                  @ ''Source: '' @ source @ [CHR 0x0A]
                  @ ''Content: '' @ snippet)
            (enumerate 0 docs))"

text \<open>\<^verbatim>\<open>str.lower\<close> on the code points below 256.\<close>

definition lower_char :: "char \<Rightarrow> char" where
  "lower_char c = (let n = (of_char c :: nat) in
     if (65 \<le> n \<and> n \<le> 90) \<or> (192 \<le> n \<and> n \<le> 222 \<and> n \<noteq> 215) then char_of (n + 32) else c)"

definition lower :: "string \<Rightarrow> string" where
  "lower s = map lower_char s"

text \<open>
  Every pattern of \<^verbatim>\<open>history_patterns\<close> is \<^verbatim>\<open>\b\<close>, literal text with alternatives, \<^verbatim>\<open>\b\<close>;
  it is written here as the list of the literal texts it stands for, and \<^verbatim>\<open>re.search\<close>
  finds it when one of them occurs between two word boundaries.
\<close>

definition head_opt :: "string \<Rightarrow> char option" where
  "head_opt s = (case s of [] \<Rightarrow> None | c # _ \<Rightarrow> Some c)"

definition match_here :: "string \<Rightarrow> char option \<Rightarrow> string \<Rightarrow> bool" where
  "match_here lit prev s =
     (length lit \<le> length s \<and> take (length lit) s = lit
      \<and> word_boundary prev (head_opt s)
      \<and> word_boundary (if lit = [] then prev else Some (last lit)) (head_opt (drop (length lit) s)))"

fun search_from :: "string \<Rightarrow> char option \<Rightarrow> string \<Rightarrow> bool" where
  "search_from lit prev [] = match_here lit prev []"
| "search_from lit prev (c # cs) = (match_here lit prev (c # cs) \<or> search_from lit (Some c) cs)"

definition re_search :: "string list \<Rightarrow> string \<Rightarrow> bool" where
  "re_search alternatives s = list_ex (\<lambda>lit. search_from lit None s) alternatives"

definition history_patterns :: "string list list" where
  "history_patterns =
     [ [''first message''],
       [''earlier''],
       [''previous''],
       map (\<lambda>v. ''what did i '' @ v) [''say'', ''ask'', ''tell''],
       concat (map (\<lambda>a. map (\<lambda>b. ''my '' @ a @ '' '' @ b) [''message'', ''question''])
                   [''first'', ''last'', ''previous'']),
       [''our conversation''],
       [''history''],
       [''before''],
       [''remember when''],
       map (\<lambda>v. ''i '' @ v) [''said'', ''asked'', ''told''],
       map (\<lambda>v. ''you '' @ v) [''said'', ''told'', ''answered''] ]"

definition is_conversation_history_question :: "string \<Rightarrow> bool" where
  "is_conversation_history_question question =
     (let question_lower = lower question
      in list_ex (\<lambda>pattern. re_search pattern question_lower) history_patterns)"

definition retrieve_with_citations ::
  "'g services \<Rightarrow> string \<Rightarrow> int \<Rightarrow> bool \<Rightarrow> (document list, 'g agent) io" where
  "retrieve_with_citations svc question k use_reranking =
     try_except
       (bind (external (SimilaritySearch question k) (similarity_search svc question k))
          (\<lambda>retrieved_docs.
             if use_reranking \<and> cohere_api_key svc then
               try_except
                 (bind (external (Rerank question k 4) (rerank_invoke svc question k 4))
                    (\<lambda>reranked_docs. ret reranked_docs))
                 (\<lambda>e. ret retrieved_docs)
             else ret retrieved_docs))
       (\<lambda>e. ret [])"

text \<open>
  What \<^verbatim>\<open>generate_with_citations\<close> returns: the structured answer, the plain model's
  message, or the dictionary with only an \<^verbatim>\<open>answer\<close> key of the unstructured fallback.
\<close>

datatype response = Structured quoted_answer | PlainMessage string | AnswerDict string

definition generate_with_citations ::
  "'g services \<Rightarrow> string \<Rightarrow> document list \<Rightarrow> bool \<Rightarrow> (response, 'g agent) io" where
  "generate_with_citations svc question documents use_structured_output =
     (let context = format_docs_with_id documents in
      try_except
        (if use_structured_output then
           bind (external (ChainInvoke context question) (chain_invoke svc context question))
             (\<lambda>r. ret (Structured r))
         else
           bind (external (ChainInvoke context question) (chain_invoke_plain svc context question))
             (\<lambda>r. ret (PlainMessage r)))
        (\<lambda>e.
           if use_structured_output then
             ret (Structured \<lparr>answer = ''I encountered an error generating a response: '' @ str_exn e,
                              citations = []\<rparr>)
           else ret (AnswerDict (''I encountered an error generating a response: '' @ str_exn e))))"

definition get_conversation_history :: "'g services \<Rightarrow> string \<Rightarrow> (message list, 'g agent) io" where
  "get_conversation_history svc config =
     (\<lambda>ag. case graph ag of
        None \<Rightarrow> ret [] ag
      | Some g \<Rightarrow>
          try_except
            (bind (external (GetState config) (graph_get_state svc g config))
               (\<lambda>current_state. case current_state of Some msgs \<Rightarrow> ret msgs | None \<Rightarrow> ret []))
            (\<lambda>e. ret []) ag)"

definition graph_ready :: "(bool, 'g agent) io" where
  "graph_ready = (\<lambda>ag. (Inr (graph ag \<noteq> None), ag))"

text \<open>\<^verbatim>\<open>self.graph.invoke({"messages": msgs}, config=config)\<close>; without a graph the attribute is missing.\<close>

definition graph_invoke_io :: "'g services \<Rightarrow> string \<Rightarrow> message list \<Rightarrow> (message list, 'g agent) io" where
  "graph_invoke_io svc config msgs =
     (\<lambda>ag. case graph ag of
        None \<Rightarrow> (Inl (Exn ''NoneType object has no attribute invoke''), ag)
      | Some g \<Rightarrow>
          (case graph_invoke svc g config msgs of
             (r, g') \<Rightarrow> (r, ag\<lparr>graph := Some g', calls := calls ag @ [GraphInvoke config msgs]\<rparr>)))"

definition message_content :: "message \<Rightarrow> string" where
  "message_content m = (case m of HumanMessage c \<Rightarrow> c | AIMessage c \<Rightarrow> c)"

definition history_text :: "message list \<Rightarrow> string" where
  "history_text history =
     join [CHR 0x0A]
       (map (\<lambda>msg. (case msg of HumanMessage _ \<Rightarrow> ''Human'' | AIMessage _ \<Rightarrow> ''Assistant'')
                    @ '': '' @ message_content msg) history)"

definition history_prompt :: "string \<Rightarrow> message list \<Rightarrow> string" where
  "history_prompt question history =
     ''Based on our conversation history, please answer this question: '' @ question
     @ [CHR 0x0A, CHR 0x0A] @ ''Conversation History:'' @ [CHR 0x0A] @ history_text history"

definition no_history_message :: string where
  "no_history_message =
     ''I don'' @ [CHR 0x27] @ ''t have any conversation history to reference. ''
     @ ''This appears to be the start of our conversation.''"

definition no_documents_message :: string where
  "no_documents_message =
     ''No relevant documents found. Please check if the vector database is populated.''"

text \<open>\<^verbatim>\<open>response.answer\<close> and \<^verbatim>\<open>response.citations\<close>: only the structured answer has them.\<close>

definition response_answer :: "response \<Rightarrow> (string, 's) io" where
  "response_answer r =
     (case r of Structured qa \<Rightarrow> ret (answer qa)
      | _ \<Rightarrow> raise (Exn ''object has no attribute answer''))"

definition response_citations :: "response \<Rightarrow> (citation list, 's) io" where
  "response_citations r =
     (case r of Structured qa \<Rightarrow> ret (citations qa)
      | _ \<Rightarrow> raise (Exn ''object has no attribute citations''))"

subsection \<open>The streaming path\<close>

text \<open>
  The generator's output is the list of the chunks it yields, in order. A status chunk
  carries one of five fixed messages (the source prefixes each with a pictograph):
  retrieving the documentation, ``Retrieved \<open>n\<close> relevant documents'', generating with
  citations, generating, searching the conversation history.
\<close>

datatype status =
    RetrievingDocumentation
  | RetrievedDocuments nat
  | GeneratingWithCitations
  | GeneratingResponse
  | SearchingHistory

datatype chunk =
    StatusChunk status
  | ErrorChunk string
  | AnswerChunk string
  | CitationsHeader
  | CitationChunk int string string string
  | WarningChunk string

definition yield :: "chunk \<Rightarrow> (unit, chunk list \<times> 's) io" where
  "yield c = (\<lambda>(out, s). (Inr (), (out @ [c], s)))"

definition lift :: "('a, 's) io \<Rightarrow> ('a, chunk list \<times> 's) io" where
  "lift m = (\<lambda>(out, s). case m s of (r, s') \<Rightarrow> (r, (out, s')))"

text \<open>
  The loop over \<^verbatim>\<open>response.citations\<close>: the guard, the lookup
  \<^verbatim>\<open>documents[citation.source_id]\<close>, and the citation chunk with source id, quote, title
  and URL.
\<close>

fun emit_citations :: "document list \<Rightarrow> citation list \<Rightarrow> (unit, chunk list \<times> 's) io" where
  "emit_citations documents [] = ret ()"
| "emit_citations documents (c # cs) =
     (if source_id c < int (length documents) then
        bind (\<lambda>s. (py_index documents (source_id c), s))
          (\<lambda>doc.
             let source_url = (case md_source (metadata doc) of None \<Rightarrow> ''Unknown source'' | Some v \<Rightarrow> v);
                 title = (case md_title (metadata doc) of None \<Rightarrow> ''Untitled'' | Some v \<Rightarrow> v)
             in bind (yield (CitationChunk (source_id c) (quote c) title source_url))
                  (\<lambda>_. emit_citations documents cs))
      else emit_citations documents cs)"

definition save_exchange_stream ::
  "'g services \<Rightarrow> string \<Rightarrow> string \<Rightarrow> string \<Rightarrow> (unit, chunk list \<times> 'g agent) io" where
  "save_exchange_stream svc config question reply =
     bind (lift graph_ready)
       (\<lambda>has_graph.
          if has_graph then
            try_except
              (bind (lift (graph_invoke_io svc config [HumanMessage question, AIMessage reply]))
                 (\<lambda>_. ret ()))
              (\<lambda>e. yield (WarningChunk (''Failed to save to memory: '' @ str_exn e)))
          else ret ())"

definition handle_history_question ::
  "'g services \<Rightarrow> string \<Rightarrow> string \<Rightarrow> (unit, chunk list \<times> 'g agent) io" where
  "handle_history_question svc question config =
     bind (yield (StatusChunk SearchingHistory))
       (\<lambda>_. bind (lift (get_conversation_history svc config))
          (\<lambda>history.
             if history = [] then yield (AnswerChunk no_history_message)
             else
               let prompt = history_prompt question history in
               bind (lift (external (LLMInvoke [HumanMessage prompt])
                             (llm_invoke svc [HumanMessage prompt])))
                 (\<lambda>content.
                    bind (yield (AnswerChunk content))
                      (\<lambda>_. save_exchange_stream svc config question content))))"

text \<open>
  \<^verbatim>\<open>self.graph.stream(..., stream_mode="values")\<close>: the graph hands out snapshots of the
  message list, and may raise after some of them; an answer chunk is yielded for every
  non-empty snapshot that ends in an assistant message.
\<close>

definition stream_graph :: "'g services \<Rightarrow> string \<Rightarrow> string \<Rightarrow> (unit, chunk list \<times> 'g agent) io" where
  "stream_graph svc config question =
     (\<lambda>(out, ag). case graph ag of
        None \<Rightarrow> (Inl (Exn ''NoneType object has no attribute stream''), (out, ag))
      | Some g \<Rightarrow>
          (case graph_stream svc g config [HumanMessage question] of
             ((snapshots, err), g') \<Rightarrow>
               let answers = concat (map (\<lambda>msgs.
                       if msgs = [] then []
                       else (case last msgs of AIMessage c \<Rightarrow> [AnswerChunk c] | HumanMessage _ \<Rightarrow> []))
                     snapshots);
                   ag' = ag\<lparr>graph := Some g',
                            calls := calls ag @ [GraphStream config [HumanMessage question]]\<rparr>
               in ((case err of None \<Rightarrow> Inr () | Some e \<Rightarrow> Inl e), (out @ answers, ag'))))"

definition stream_response_with_citations ::
  "'g services \<Rightarrow> string \<Rightarrow> bool \<Rightarrow> bool \<Rightarrow> string option \<Rightarrow> 'g agent \<Rightarrow> chunk list \<times> 'g agent" where
  "stream_response_with_citations svc question use_citations use_reranking config_arg ag =
     (let config = (case config_arg of None \<Rightarrow> ''1'' | Some c \<Rightarrow> c);
          body =
            try_except
              (if is_conversation_history_question question then
                 handle_history_question svc question config
               else if use_citations then
                 bind (yield (StatusChunk RetrievingDocumentation))
                   (\<lambda>_. bind (lift (retrieve_with_citations svc question 6 use_reranking))
                      (\<lambda>documents.
                         if documents = [] then yield (ErrorChunk no_documents_message)
                         else
                           bind (yield (StatusChunk (RetrievedDocuments (length documents))))
                             (\<lambda>_. bind (yield (StatusChunk GeneratingWithCitations))
                             (\<lambda>_. bind (lift (generate_with_citations svc question documents True))
                             (\<lambda>response. bind (response_answer response)
                             (\<lambda>reply. bind (yield (AnswerChunk reply))
                             (\<lambda>_. bind (response_citations response)
                             (\<lambda>cits. bind (if cits \<noteq> [] then
                                              bind (yield CitationsHeader)
                                                (\<lambda>_. emit_citations documents cits)
                                            else ret ())
                             (\<lambda>_. save_exchange_stream svc config question reply)))))))))
               else
                 bind (yield (StatusChunk GeneratingResponse))
                   (\<lambda>_. bind (lift graph_ready)
                      (\<lambda>has_graph.
                         if has_graph then stream_graph svc config question
                         else
                           bind (lift (external (LLMInvoke [HumanMessage question])
                                         (llm_invoke svc [HumanMessage question])))
                             (\<lambda>content. yield (AnswerChunk content)))))
              (\<lambda>e. yield (ErrorChunk (''An error occurred: '' @ str_exn e)))
      in case body ([], ag) of (r, (out, ag')) \<Rightarrow> (out, ag'))"

subsection \<open>The blocking path\<close>

text \<open>
  \<^verbatim>\<open>ask_question\<close> returns a \<^verbatim>\<open>QuotedAnswer\<close>. In its citation branch it returns what
  \<^verbatim>\<open>generate_with_citations\<close> gave, which in the structured mode it asks for is always
  a structured answer; the other two shapes of a response cannot occur there.
\<close>

definition ask_question ::
  "'g services \<Rightarrow> string \<Rightarrow> bool \<Rightarrow> bool \<Rightarrow> string option \<Rightarrow> (quoted_answer, 'g agent) io" where
  "ask_question svc question use_citations use_reranking config_arg =
     (let config = (case config_arg of None \<Rightarrow> ''1'' | Some c \<Rightarrow> c) in
      try_except
        (if is_conversation_history_question question then
           bind (get_conversation_history svc config)
             (\<lambda>history.
                if history = [] then ret \<lparr>answer = no_history_message, citations = []\<rparr>
                else
                  let prompt = history_prompt question history in
                  bind (external (LLMInvoke [HumanMessage prompt]) (llm_invoke svc [HumanMessage prompt]))
                    (\<lambda>content.
                       let result = \<lparr>answer = content, citations = []\<rparr> in
                       bind graph_ready
                         (\<lambda>has_graph.
                            if has_graph then
                              bind (graph_invoke_io svc config [HumanMessage question, AIMessage content])
                                (\<lambda>_. ret result)
                            else ret result)))
         else if use_citations then
           bind (retrieve_with_citations svc question 6 use_reranking)
             (\<lambda>documents.
                if documents = [] then ret \<lparr>answer = no_documents_message, citations = []\<rparr>
                else
                  bind (generate_with_citations svc question documents True)
                    (\<lambda>response.
                       bind graph_ready
                         (\<lambda>has_graph.
                            bind (if has_graph then
                                    bind (response_answer response)
                                      (\<lambda>reply. bind (graph_invoke_io svc config
                                                        [HumanMessage question, AIMessage reply])
                                                  (\<lambda>_. ret ()))
                                  else ret ())
                              (\<lambda>_. case response of
                                      Structured qa \<Rightarrow> ret qa
                                    | _ \<Rightarrow> raise (Exn ''not a QuotedAnswer'')))))
         else
           bind graph_ready
             (\<lambda>has_graph.
                if has_graph then
                  bind (graph_invoke_io svc config [HumanMessage question])
                    (\<lambda>messages.
                       bind (\<lambda>s. (py_index messages (- 1), s))
                         (\<lambda>last_message. ret \<lparr>answer = message_content last_message, citations = []\<rparr>))
                else
                  bind (external (LLMInvoke [HumanMessage question]) (llm_invoke svc [HumanMessage question]))
                    (\<lambda>content. ret \<lparr>answer = content, citations = []\<rparr>)))
        (\<lambda>e. ret \<lparr>answer = ''An error occurred while processing your question: '' @ str_exn e,
                    citations = []\<rparr>))"

section \<open>The indexing pipeline: \<^verbatim>\<open>populate_vectordb.py\<close>\<close>

definition INDEX_NAME :: string where
  "INDEX_NAME = ''cerebras-docs''"

record vector_metadata =
  vm_text :: string
  vm_title :: string
  vm_source :: string
  vm_section :: string
  vm_content_type :: string
  vm_chunk_index :: int

record 'e vector =
  vec_id :: string
  vec_values :: 'e
  vec_metadata :: vector_metadata

text \<open>The calls of the pipeline to the crawlers, to Cohere and to Pinecone, as they are logged.\<close>

datatype 'e index_call =
    CrawlFirecrawl string
  | CrawlFallback "string list"
  | ListIndexes
  | CreateIndex string
  | DescribeIndex string
  | EmbedDocuments "string list"
  | Upsert "'e vector list"
  | DescribeIndexStats

text \<open>
  The environment of a run. Both crawl methods catch every exception and return a list of
  documents; what they return depends on the network only and is taken as given, like the
  chunks the text splitter makes of a document. \<open>describe_index_ready svc i\<close> answers the
  \<open>i\<close>-th poll for the readiness of a new index. \<open>'e\<close> is the type of an embedding.
\<close>

record 'e index_services =
  env_cohere_api_key :: bool
  env_pinecone_api_key :: bool
  crawler_init :: "exn + unit"
  crawl_with_firecrawl :: "string \<Rightarrow> document list"
  crawl_fallback :: "string list \<Rightarrow> document list"
  split_documents :: "document \<Rightarrow> document list"
  list_indexes :: "exn + string list"
  create_index :: "string \<Rightarrow> exn + unit"
  describe_index_ready :: "nat \<Rightarrow> exn + bool"
  embed_documents :: "string list \<Rightarrow> exn + 'e list"
  upsert :: "'e vector list \<Rightarrow> exn + unit"
  describe_index_stats :: "exn + nat"

definition called :: "'c \<Rightarrow> exn + 'a \<Rightarrow> ('a, 'c list) io" where
  "called c r = (\<lambda>log. (r, log @ [c]))"

definition chunk_documents :: "'e index_services \<Rightarrow> document list \<Rightarrow> document list" where
  "chunk_documents svc documents =
     concat (map (\<lambda>doc.
                let chunks = split_documents svc doc in
                map (\<lambda>(i, chunk).
                       chunk\<lparr>metadata := (metadata chunk)\<lparr>md_chunk_index := Some (int i),
                                                          md_total_chunks := Some (int (length chunks))\<rparr>\<rparr>)
                    (enumerate 0 chunks))
             documents)"

text \<open>
  The wait for a new index, \<^verbatim>\<open>while not ...status['ready']: time.sleep(5)\<close>, may go on
  for ever; then the result is \<open>None\<close>.
\<close>

partial_function (option) wait_until_ready ::
  "'e index_services \<Rightarrow> nat \<Rightarrow> 'e index_call list \<Rightarrow> ((exn + unit) \<times> 'e index_call list) option" where
  "wait_until_ready svc i log =
     (case describe_index_ready svc i of
        Inl e \<Rightarrow> Some (Inl e, log @ [DescribeIndex INDEX_NAME])
      | Inr ready \<Rightarrow>
          if ready then Some (Inr (), log @ [DescribeIndex INDEX_NAME])
          else wait_until_ready svc (Suc i) (log @ [DescribeIndex INDEX_NAME]))"

definition setup_pinecone_index ::
  "'e index_services \<Rightarrow> 'e index_call list \<Rightarrow> ((exn + unit) \<times> 'e index_call list) option" where
  "setup_pinecone_index svc log =
     (case list_indexes svc of
        Inl e \<Rightarrow> Some (Inl e, log @ [ListIndexes])
      | Inr index_names \<Rightarrow>
          if INDEX_NAME \<in> set index_names then Some (Inr (), log @ [ListIndexes])
          else
            (case create_index svc INDEX_NAME of
               Inl e \<Rightarrow> Some (Inl e, log @ [ListIndexes, CreateIndex INDEX_NAME])
             | Inr _ \<Rightarrow> wait_until_ready svc 0 (log @ [ListIndexes, CreateIndex INDEX_NAME])))"

definition vector_of :: "nat \<Rightarrow> nat \<Rightarrow> document \<Rightarrow> 'e \<Rightarrow> 'e vector" where
  "vector_of i j doc embedding =
     \<lparr>vec_id = ''doc_'' @ str_nat (i + j),
      vec_values = embedding,
      vec_metadata =
        \<lparr>vm_text = take 1000 (page_content doc),
         vm_title = take 100 (case md_title (metadata doc) of None \<Rightarrow> [] | Some v \<Rightarrow> v),
         vm_source = take 200 (case md_source (metadata doc) of None \<Rightarrow> [] | Some v \<Rightarrow> v),
         vm_section = (case md_section (metadata doc) of None \<Rightarrow> [] | Some v \<Rightarrow> v),
         vm_content_type = (case md_content_type (metadata doc) of None \<Rightarrow> [] | Some v \<Rightarrow> v),
         vm_chunk_index = (case md_chunk_index (metadata doc) of None \<Rightarrow> 0 | Some v \<Rightarrow> v)\<rparr>\<rparr>"

definition batch_size :: nat where
  "batch_size = 10"

text \<open>
  The inner loop over \<^verbatim>\<open>enumerate(zip(batch, embeddings))\<close>, which builds the vectors of
  the batch that starts at offset \<open>i\<close>, and one turn of the batch loop.
\<close>

definition batch_vectors :: "nat \<Rightarrow> document list \<Rightarrow> 'e list \<Rightarrow> 'e vector list" where
  "batch_vectors i batch embeddings =
     map (\<lambda>(j, (doc, embedding)). vector_of i j doc embedding) (enumerate 0 (zip batch embeddings))"

definition process_batch ::
  "'e index_services \<Rightarrow> document list \<Rightarrow> nat \<Rightarrow> (unit, 'e index_call list) io" where
  "process_batch svc documents i =
     (let batch = take batch_size (drop i documents) in
      try_except
        (let texts = map page_content batch in
         bind (called (EmbedDocuments texts) (embed_documents svc texts))
           (\<lambda>embeddings.
              let vectors = batch_vectors i batch embeddings
              in bind (called (Upsert vectors) (upsert svc vectors)) (\<lambda>_. ret ())))
        (\<lambda>e. ret ()))"

function populate_batches ::
  "'e index_services \<Rightarrow> document list \<Rightarrow> nat \<Rightarrow> (unit, 'e index_call list) io" where
  "populate_batches svc documents i =
     (if i < length documents then
        bind (process_batch svc documents i) (\<lambda>_. populate_batches svc documents (i + batch_size))
      else ret ())"
  by pat_completeness auto
termination
  by (relation "measure (\<lambda>(svc, documents, i). length documents - i)") (auto simp: batch_size_def)

declare populate_batches.simps [simp del]

definition populate_index ::
  "'e index_services \<Rightarrow> document list \<Rightarrow> 'e index_call list
   \<Rightarrow> ((exn + unit) \<times> 'e index_call list) option" where
  "populate_index svc documents log =
     (if documents = [] then Some (Inr (), log)
      else
        (case setup_pinecone_index svc log of
           None \<Rightarrow> None
         | Some (Inl e, log') \<Rightarrow> Some (Inl e, log')
         | Some (Inr _, log') \<Rightarrow>
             Some (bind (populate_batches svc documents 0)
                     (\<lambda>_. bind (called DescribeIndexStats (describe_index_stats svc))
                        (\<lambda>vector_count. ret ())) log')))"

definition base_urls :: "string list" where
  "base_urls = [''https://inference-docs.cerebras.ai/'']"

definition fallback_urls :: "string list" where
  "fallback_urls =
     [''https://inference-docs.cerebras.ai/introduction'',
      ''https://inference-docs.cerebras.ai/quickstart'',
      ''https://inference-docs.cerebras.ai/api-reference'',
      ''https://inference-docs.cerebras.ai/guides'']"

text \<open>
  \<^verbatim>\<open>main\<close>. Its two crawl steps (the loop over \<^verbatim>\<open>base_urls\<close> and the fallback) are
  \<open>crawl_all\<close>, which returns \<^verbatim>\<open>all_documents\<close>. The handler of the \<^verbatim>\<open>try\<close> prints and
  raises again, so an exception passes through unchanged.
\<close>

definition crawl_all ::
  "'e index_services \<Rightarrow> 'e index_call list \<Rightarrow> document list \<times> 'e index_call list" where
  "crawl_all svc log =
     (case fold (\<lambda>base_url (docs, l).
                   (docs @ crawl_with_firecrawl svc base_url, l @ [CrawlFirecrawl base_url]))
                base_urls ([], log) of
        (all_documents, log1) \<Rightarrow>
          if length all_documents < 5
          then (all_documents @ crawl_fallback svc fallback_urls, log1 @ [CrawlFallback fallback_urls])
          else (all_documents, log1))"

definition main ::
  "'e index_services \<Rightarrow> 'e index_call list \<Rightarrow> ((exn + unit) \<times> 'e index_call list) option" where
  "main svc log =
     (let missing_vars =
            (if env_cohere_api_key svc then [] else [''COHERE_API_KEY''])
            @ (if env_pinecone_api_key svc then [] else [''PINECONE_API_KEY''])
      in
      if missing_vars \<noteq> [] then Some (Inr (), log)
      else
        (case crawler_init svc of
           Inl e \<Rightarrow> Some (Inl e, log)
         | Inr _ \<Rightarrow>
             (case crawl_all svc log of
                (all_documents, log') \<Rightarrow>
                  if all_documents = [] then Some (Inr (), log')
                  else populate_index svc (chunk_documents svc all_documents) log')))"

text \<open>
  Modelled from the spec: the vector store is an outside service, and its contract is
  \<^verbatim>\<open>upsert(id, vector, metadata)\<close>. It keeps one entry for each id, and an upsert that
  the service accepts writes its vectors over the entries of the same id. \<open>replay\<close>
  applies the upserts of a call log to a store.
\<close>

type_synonym 'e store = "string \<rightharpoonup> ('e \<times> vector_metadata)"

definition upsert_store :: "'e vector list \<Rightarrow> 'e store \<Rightarrow> 'e store" where
  "upsert_store vs m = fold (\<lambda>v m'. m'(vec_id v \<mapsto> (vec_values v, vec_metadata v))) vs m"

fun replay :: "'e index_services \<Rightarrow> 'e index_call list \<Rightarrow> 'e store \<Rightarrow> 'e store" where
  "replay svc [] m = m"
| "replay svc (Upsert vs # cs) m =
     (if upsert svc vs = Inr () then replay svc cs (upsert_store vs m) else replay svc cs m)"
| "replay svc (_ # cs) m = replay svc cs m"

text \<open>
  What the claim about ids and metadata says of one entry (id, metadata) of the index, for
  the document at offset \<open>n\<close>.
\<close>

definition indexed_as :: "nat \<Rightarrow> document \<Rightarrow> string \<times> vector_metadata \<Rightarrow> bool" where
  "indexed_as n doc entry =
     (fst entry = ''doc_'' @ str_nat n
      \<and> vm_text (snd entry) = take 1000 (page_content doc)
      \<and> vm_title (snd entry) = take 100 (case md_title (metadata doc) of None \<Rightarrow> [] | Some v \<Rightarrow> v)
      \<and> vm_source (snd entry) = take 200 (case md_source (metadata doc) of None \<Rightarrow> [] | Some v \<Rightarrow> v))"

text \<open>
  The citation chunk the streaming path yields for a citation and the document it looks
  up; and, for comparison with the loop, the chunks that the amended claim C10 expects for
  a list of citations none of which is below \<open>- len(documents)\<close>: none for a source id of
  \<open>len(documents)\<close> or more, else the chunk of the document at the source id, a negative
  one counted from the end.
\<close>

definition citation_chunk :: "citation \<Rightarrow> document \<Rightarrow> chunk" where
  "citation_chunk c doc =
     CitationChunk (source_id c) (quote c)
       (case md_title (metadata doc) of None \<Rightarrow> ''Untitled'' | Some v \<Rightarrow> v)
       (case md_source (metadata doc) of None \<Rightarrow> ''Unknown source'' | Some v \<Rightarrow> v)"

definition shown_citations :: "document list \<Rightarrow> citation list \<Rightarrow> chunk list" where
  "shown_citations documents cs =
     concat (map (\<lambda>c.
        if source_id c < int (length documents)
        then [citation_chunk c
                (documents ! nat (if source_id c < 0 then int (length documents) + source_id c
                                  else source_id c))]
        else []) cs)"

section \<open>Example environments\<close>

text \<open>Documents, services and an agent on which the statements below are evaluated.\<close>

definition doc_intro :: document where
  "doc_intro =
     \<lparr>page_content = ''Cerebras inference serves open models at high speed.'',
      metadata = \<lparr>md_source = Some ''https://inference-docs.cerebras.ai/introduction'',
                  md_title = Some ''Introduction'', md_section = Some ''Documentation'',
                  md_content_type = Some ''documentation'', md_chunk_index = Some 0,
                  md_total_chunks = None\<rparr>\<rparr>"

definition doc_quickstart :: document where
  "doc_quickstart =
     \<lparr>page_content = ''Install the SDK and set the API key.'',
      metadata = \<lparr>md_source = Some ''https://inference-docs.cerebras.ai/quickstart'',
                  md_title = None, md_section = Some ''Documentation'',
                  md_content_type = Some ''api'', md_chunk_index = Some 1,
                  md_total_chunks = None\<rparr>\<rparr>"

definition six_documents :: "document list" where
  "six_documents = [doc_intro, doc_intro, doc_intro, doc_quickstart, doc_quickstart, doc_quickstart]"

definition content_length_score :: "string \<Rightarrow> document \<Rightarrow> int" where
  "content_length_score question doc = int (length (page_content doc))"

definition example_services :: "quoted_answer \<Rightarrow> document list \<Rightarrow> unit services" where
  "example_services reply stored =
     \<lparr>similarity_search = (\<lambda>question k.
          if k < 0 then Inl (Exn ''k must not be negative'') else Inr (take (nat k) stored)),
      rerank_invoke = (\<lambda>question k top_n. Inl (Exn ''rerank unavailable'')),
      cohere_api_key = True,
      chain_invoke = (\<lambda>context question. Inr reply),
      chain_invoke_plain = (\<lambda>context question. Inr (answer reply)),
      llm_invoke = (\<lambda>messages. Inr (answer reply)),
      graph_get_state = (\<lambda>g config. Inr None),
      graph_invoke = (\<lambda>g config messages. (Inr messages, g)),
      graph_stream = (\<lambda>g config messages. (([], None), g))\<rparr>"

definition failing_services :: "unit services" where
  "failing_services =
     \<lparr>similarity_search = (\<lambda>question k. Inl (Exn ''index unreachable'')),
      rerank_invoke = (\<lambda>question k top_n. Inl (Exn ''rerank unavailable'')),
      cohere_api_key = True,
      chain_invoke = (\<lambda>context question. Inl (Exn ''could not parse output'')),
      chain_invoke_plain = (\<lambda>context question. Inl (Exn ''model unavailable'')),
      llm_invoke = (\<lambda>messages. Inl (Exn ''model unavailable'')),
      graph_get_state = (\<lambda>g config. Inl (Exn ''no checkpoint'')),
      graph_invoke = (\<lambda>g config messages. (Inl (Exn ''model unavailable''), g)),
      graph_stream = (\<lambda>g config messages. (([], Some (Exn ''model unavailable'')), g))\<rparr>"

definition fresh_agent :: "unit agent" where
  "fresh_agent = \<lparr>graph = None, calls = []\<rparr>"

definition cited_reply :: "int \<Rightarrow> quoted_answer" where
  "cited_reply sid = \<lparr>answer = ''It is fast.'', citations = [\<lparr>source_id = sid, quote = ''high speed''\<rparr>]\<rparr>"

definition example_index_services :: "document list \<Rightarrow> document list \<Rightarrow> nat index_services" where
  "example_index_services primary fallback =
     \<lparr>env_cohere_api_key = True,
      env_pinecone_api_key = True,
      crawler_init = Inr (),
      crawl_with_firecrawl = (\<lambda>base_url. primary),
      crawl_fallback = (\<lambda>urls. fallback),
      split_documents = (\<lambda>doc. [doc]),
      list_indexes = Inr [],
      create_index = (\<lambda>name. Inr ()),
      describe_index_ready = (\<lambda>poll. Inr (2 \<le> poll)),
      embed_documents = (\<lambda>texts. Inr (map length texts)),
      upsert = (\<lambda>vectors. Inr ()),
      describe_index_stats = Inr 0\<rparr>"

definition doc_long :: document where
  "doc_long =
     \<lparr>page_content = replicate 1200 (CHR ''x''),
      metadata = \<lparr>md_source = Some (replicate 250 (CHR ''s'')),
                  md_title = Some (replicate 150 (CHR ''t'')), md_section = None,
                  md_content_type = None, md_chunk_index = None,
                  md_total_chunks = None\<rparr>\<rparr>"

section \<open>The normalizer's output\<close>





lemma span_len_le: "span_len P s \<le> length s"
  by (simp add: span_len_def length_takeWhile_le)







lemma span_len_drop_le: "a + span_len P (drop a s) \<le> length s \<or> length s < a"
  using span_len_le[of P "drop a s"] by auto












section \<open>Retrieval, generation and the two question paths\<close>

lemmas io_defs = ret_def raise_def bind_def try_except_def external_def

lemma retrieve_result:
  "fst (retrieve_with_citations svc question k use_reranking ag) =
     Inr (case similarity_search svc question k of
            Inl e \<Rightarrow> []
          | Inr retrieved \<Rightarrow>
              if use_reranking \<and> cohere_api_key svc
              then (case rerank_invoke svc question k 4 of Inl e \<Rightarrow> retrieved | Inr reranked \<Rightarrow> reranked)
              else retrieved)"
  by (auto simp: retrieve_with_citations_def io_defs split: sum.splits)

text \<open>
  Claim C3. For every query, retrieval returns a list and raises nothing. When the
  similarity search fails, the list is empty; when the search succeeds and the reranking
  that was asked for fails, or is not attempted for want of the Cohere key or of the
  request, the list is the similarity result as it came.
\<close>

theorem retrieve_with_citations_never_raises:
  "(\<exists>docs. fst (retrieve_with_citations svc question k use_reranking ag) = Inr docs)
   \<and> (\<forall>e. similarity_search svc question k = Inl e
          \<longrightarrow> fst (retrieve_with_citations svc question k use_reranking ag) = Inr [])
   \<and> (\<forall>retrieved e. similarity_search svc question k = Inr retrieved
          \<and> use_reranking \<and> cohere_api_key svc \<and> rerank_invoke svc question k 4 = Inl e
          \<longrightarrow> fst (retrieve_with_citations svc question k use_reranking ag) = Inr retrieved)
   \<and> (\<forall>retrieved. similarity_search svc question k = Inr retrieved
          \<and> \<not> (use_reranking \<and> cohere_api_key svc)
          \<longrightarrow> fst (retrieve_with_citations svc question k use_reranking ag) = Inr retrieved)"
  by (auto simp: retrieve_with_citations_def io_defs split: sum.splits)

theorem retrieve_with_citations_never_raises_witness:
  "fst (retrieve_with_citations failing_services ''what is cerebras'' 6 True fresh_agent) = Inr []
   \<and> fst (retrieve_with_citations (example_services \<lparr>answer = ''fast'', citations = []\<rparr> six_documents)
            ''what is cerebras'' 6 True fresh_agent) = Inr six_documents"
proof -
  have a: "similarity_search failing_services ''what is cerebras'' 6 = Inl (Exn ''index unreachable'')"
    by (simp add: failing_services_def)
  let ?svc = "example_services \<lparr>answer = ''fast'', citations = []\<rparr> six_documents"
  have b: "similarity_search ?svc ''what is cerebras'' 6 = Inr six_documents
           \<and> True \<and> cohere_api_key ?svc
           \<and> rerank_invoke ?svc ''what is cerebras'' 6 4 = Inl (Exn ''rerank unavailable'')"
    by (simp add: example_services_def six_documents_def)
  show ?thesis
    using a b
      retrieve_with_citations_never_raises[of failing_services "''what is cerebras''" 6 True fresh_agent]
      retrieve_with_citations_never_raises[of ?svc "''what is cerebras''" 6 True fresh_agent]
    by blast
qed

text \<open>
  Claim C4 as stated fails in its second half: with \<^verbatim>\<open>use_reranking=True\<close> and \<open>k = 6\<close>,
  a store that answers with six documents and a reranker that is down give six documents,
  not at most four.
\<close>

theorem rerank_fallback_returns_six:
  "fst (retrieve_with_citations (example_services \<lparr>answer = ''fast'', citations = []\<rparr> six_documents)
          ''what is cerebras'' 6 True fresh_agent) = Inr six_documents
   \<and> length six_documents = 6"
  by (simp add: retrieve_result example_services_def six_documents_def)

lemma six_documents_sorted:
  "sorted_wrt (\<lambda>a b. content_length_score q b \<le> content_length_score q a) six_documents"
  by (simp add: six_documents_def content_length_score_def doc_intro_def doc_quickstart_def)

text \<open>
  Claim C4, as amended. Let the similarity search return at most \<open>k\<close> documents in
  descending order of similarity, and the reranker at most its \<open>top_n\<close>, which the code
  sets to 4, and let \<open>0 \<le> k\<close>. Without
  reranking, retrieval returns at most \<open>k\<close> documents in descending order of similarity.
  With reranking, it returns at most 4 documents when the Cohere key is set and the
  reranking call succeeds, and at most \<open>k\<close> documents otherwise.
\<close>

theorem retrieve_with_citations_bounds:
  assumes search_contract:
      "\<And>q n found. similarity_search svc q n = Inr found
         \<Longrightarrow> int (length found) \<le> n \<and> sorted_wrt (\<lambda>a b. score q b \<le> score q a) found"
    and rerank_contract: "\<And>q n top_n kept. rerank_invoke svc q n top_n = Inr kept \<Longrightarrow> length kept \<le> top_n"
    and k: "0 \<le> k"
    and result: "fst (retrieve_with_citations svc question k use_reranking ag) = Inr docs"
  shows "(\<not> use_reranking \<longrightarrow>
            int (length docs) \<le> k \<and> sorted_wrt (\<lambda>a b. score question b \<le> score question a) docs)
       \<and> (use_reranking \<longrightarrow>
            (if cohere_api_key svc \<and> (\<exists>kept. rerank_invoke svc question k 4 = Inr kept)
             then length docs \<le> 4 else int (length docs) \<le> k))"
proof (cases "similarity_search svc question k")
  case (Inl e)
  then have "docs = []" using result by (simp add: retrieve_result)
  then show ?thesis using k by simp
next
  case (Inr retrieved)
  note found = search_contract[OF Inr]
  show ?thesis
  proof (cases "use_reranking \<and> cohere_api_key svc")
    case False
    then have "docs = retrieved" using result Inr by (auto simp: retrieve_result)
    then show ?thesis using found False by auto
  next
    case True
    show ?thesis
    proof (cases "rerank_invoke svc question k 4")
      case (Inl e)
      then have "docs = retrieved" using result Inr True by (simp add: retrieve_result)
      then show ?thesis using found True Inl by auto
    next
      case (Inr kept)
      then have "docs = kept" using result \<open>similarity_search svc question k = Inr retrieved\<close> True
        by (simp add: retrieve_result)
      then show ?thesis using rerank_contract[OF Inr] True Inr by auto
    qed
  qed
qed

theorem retrieve_with_citations_bounds_witness:
  "int (length six_documents) \<le> 6
   \<and> sorted_wrt (\<lambda>a b. content_length_score ''what is cerebras'' b
                        \<le> content_length_score ''what is cerebras'' a) six_documents
   \<and> length (take 4 six_documents) \<le> 4"
proof -
  let ?rr = "(example_services \<lparr>answer = ''fast'', citations = []\<rparr> six_documents)
               \<lparr>rerank_invoke := (\<lambda>question k top_n. Inr (take top_n six_documents))\<rparr>"
  have d1: "\<And>q n found. similarity_search ?rr q n = Inr found
         \<Longrightarrow> int (length found) \<le> n \<and> sorted_wrt (\<lambda>a b. content_length_score q b \<le> content_length_score q a) found"
  proof -
    fix q n found
    assume "similarity_search ?rr q n = Inr found"
    then have f: "found = take (nat n) six_documents" and n: "0 \<le> n"
      by (auto simp: example_services_def split: if_splits)
    have "sorted_wrt (\<lambda>a b. content_length_score q b \<le> content_length_score q a) found"
      unfolding f using six_documents_sorted by (rule sorted_wrt_take)
    moreover have "int (length found) \<le> n" unfolding f using n by simp
    ultimately show "int (length found) \<le> n \<and> sorted_wrt (\<lambda>a b. content_length_score q b \<le> content_length_score q a) found"
      by simp
  qed
  have d2: "\<And>q n top_n kept. rerank_invoke ?rr q n top_n = Inr kept \<Longrightarrow> length kept \<le> top_n"
    by auto
  have d3: "fst (retrieve_with_citations ?rr ''what is cerebras'' 6 True fresh_agent) = Inr (take 4 six_documents)"
    by (simp add: retrieve_result example_services_def)
  have d4: "cohere_api_key ?rr \<and> (\<exists>kept. rerank_invoke ?rr ''what is cerebras'' 6 4 = Inr kept)"
    by (simp add: example_services_def)
  note reranked = retrieve_with_citations_bounds[where svc = "?rr" and score = content_length_score
          and question = "''what is cerebras''" and k = 6 and use_reranking = True
          and ag = fresh_agent and docs = "take 4 six_documents", OF d1 d2 _ d3]
  let ?svc = "example_services \<lparr>answer = ''fast'', citations = []\<rparr> six_documents"
  have c1: "\<And>q n found. similarity_search ?svc q n = Inr found
         \<Longrightarrow> int (length found) \<le> n \<and> sorted_wrt (\<lambda>a b. content_length_score q b \<le> content_length_score q a) found"
  proof -
    fix q n found
    assume "similarity_search ?svc q n = Inr found"
    then have f: "found = take (nat n) six_documents" and n: "0 \<le> n"
      by (auto simp: example_services_def split: if_splits)
    have "sorted_wrt (\<lambda>a b. content_length_score q b \<le> content_length_score q a) found"
      unfolding f using six_documents_sorted by (rule sorted_wrt_take)
    moreover have "int (length found) \<le> n" unfolding f using n by simp
    ultimately show "int (length found) \<le> n \<and> sorted_wrt (\<lambda>a b. content_length_score q b \<le> content_length_score q a) found"
      by simp
  qed
  have c2: "\<And>q n top_n kept. rerank_invoke ?svc q n top_n = Inr kept \<Longrightarrow> length kept \<le> top_n"
    by (simp add: example_services_def)
  have r: "fst (retrieve_with_citations ?svc ''what is cerebras'' 6 False fresh_agent) = Inr six_documents"
    by (simp add: retrieve_result example_services_def six_documents_def)
  show ?thesis
    using retrieve_with_citations_bounds[where svc = "?svc" and score = content_length_score
          and question = "''what is cerebras''" and k = 6 and use_reranking = False
          and ag = fresh_agent and docs = six_documents, OF c1 c2 _ r]
      reranked d4
    by simp
qed

text \<open>
  Claim C5. \<^verbatim>\<open>generate_with_citations\<close> raises nothing, whatever the chain does. When
  the chain call fails (the model is unreachable, or its output does not parse into a
  \<^verbatim>\<open>QuotedAnswer\<close>), the structured mode, which is the default and the only one the agent
  uses, returns an answer whose text is the failure message and whose citation list is
  empty.
\<close>

theorem generate_with_citations_failure_is_local:
  "(\<exists>r. fst (generate_with_citations svc question documents use_structured_output ag) = Inr r)
   \<and> (\<forall>e. chain_invoke svc (format_docs_with_id documents) question = Inl e \<longrightarrow>
          fst (generate_with_citations svc question documents True ag) =
            Inr (Structured \<lparr>answer = ''I encountered an error generating a response: '' @ str_exn e,
                            citations = []\<rparr>))"
  by (auto simp: generate_with_citations_def io_defs Let_def split: sum.splits)

theorem generate_with_citations_failure_is_local_witness:
  "fst (generate_with_citations failing_services ''what is cerebras'' [doc_intro] True fresh_agent) =
     Inr (Structured \<lparr>answer = ''I encountered an error generating a response: could not parse output'',
                     citations = []\<rparr>)"
proof -
  have "chain_invoke failing_services (format_docs_with_id [doc_intro]) ''what is cerebras''
          = Inl (Exn ''could not parse output'')"
    by (simp add: failing_services_def)
  then show ?thesis
    using generate_with_citations_failure_is_local[of failing_services "''what is cerebras''" "[doc_intro]" True fresh_agent]
    by simp
qed

lemma try_except_total:
  assumes "\<And>e s'. \<exists>x s''. h e s' = (Inr x, s'')"
  shows "\<exists>x s'. try_except m h s = (Inr x, s')"
proof (cases "m s")
  case (Pair r s')
  then show ?thesis using assms[of _ s'] by (cases r) (auto simp: try_except_def)
qed

lemma ask_question_never_raises:
  "\<exists>qa. fst (ask_question svc question use_citations use_reranking config ag) = Inr qa"
proof -
  have "\<exists>qa ag'. ask_question svc question use_citations use_reranking config ag = (Inr qa, ag')"
    unfolding ask_question_def Let_def by (rule try_except_total) (simp add: ret_def)
  then show ?thesis by auto
qed

lemma not_history_example: "\<not> is_conversation_history_question ''what is cerebras''"
  by code_simp

lemma history_example: "is_conversation_history_question ''What did I ask earlier?''"
  by code_simp

text \<open>
  Claim C6. A question that goes to retrieval (citations enabled, not classified as a
  history question) and gets the empty result set is answered, without an exception, by the
  ``no relevant documents'' message with no citations; the streaming path yields the same
  message as its error chunk and stops.
\<close>

theorem empty_retrieval_gives_no_documents_answer:
  assumes "\<not> is_conversation_history_question question"
      and "fst (retrieve_with_citations svc question 6 use_reranking ag) = Inr []"
  shows "fst (ask_question svc question True use_reranking config ag) =
           Inr \<lparr>answer = no_documents_message, citations = []\<rparr>
       \<and> fst (stream_response_with_citations svc question True use_reranking config ag) =
           [StatusChunk RetrievingDocumentation, ErrorChunk no_documents_message]"
proof -
  obtain ag' where r: "retrieve_with_citations svc question 6 use_reranking ag = (Inr [], ag')"
    using assms(2) by (cases "retrieve_with_citations svc question 6 use_reranking ag") auto
  have a: "fst (ask_question svc question True use_reranking config ag) =
           Inr \<lparr>answer = no_documents_message, citations = []\<rparr>"
    using assms(1) r by (simp add: ask_question_def Let_def bind_def try_except_def ret_def)
  have b: "fst (stream_response_with_citations svc question True use_reranking config ag) =
           [StatusChunk RetrievingDocumentation, ErrorChunk no_documents_message]"
    using assms(1) r
    by (simp add: stream_response_with_citations_def Let_def bind_def try_except_def ret_def
                  yield_def lift_def)
  show ?thesis using a b by simp
qed

theorem empty_retrieval_gives_no_documents_answer_witness:
  "fst (ask_question failing_services ''what is cerebras'' True False None fresh_agent) =
     Inr \<lparr>answer = no_documents_message, citations = []\<rparr>
   \<and> fst (stream_response_with_citations failing_services ''what is cerebras'' True False None fresh_agent) =
       [StatusChunk RetrievingDocumentation, ErrorChunk no_documents_message]"
proof -
  have "fst (retrieve_with_citations failing_services ''what is cerebras'' 6 False fresh_agent) = Inr []"
    by (simp add: retrieve_result failing_services_def)
  then show ?thesis
    using empty_retrieval_gives_no_documents_answer[OF not_history_example, of failing_services False fresh_agent None]
    by simp
qed

text \<open>
  Claim C7. For a question classified as history-referencing in a thread whose
  conversation history is empty, the answer is the ``no conversation history'' message with
  no citations. The only outside call of the run is the read of the graph's state (none at
  all without a graph): no similarity search, no reranking and no model call is made, and
  the graph is left as it was. The streaming path yields the same message.
\<close>

theorem history_question_without_memory:
  assumes "is_conversation_history_question question"
      and "fst (get_conversation_history svc (case config of None \<Rightarrow> ''1'' | Some c \<Rightarrow> c) ag) = Inr []"
  shows "fst (ask_question svc question use_citations use_reranking config ag) =
           Inr \<lparr>answer = no_history_message, citations = []\<rparr>
       \<and> calls (snd (ask_question svc question use_citations use_reranking config ag)) =
           calls ag @ (case graph ag of None \<Rightarrow> []
                       | Some g \<Rightarrow> [GetState (case config of None \<Rightarrow> ''1'' | Some c \<Rightarrow> c)])
       \<and> graph (snd (ask_question svc question use_citations use_reranking config ag)) = graph ag
       \<and> fst (stream_response_with_citations svc question use_citations use_reranking config ag) =
           [StatusChunk SearchingHistory, AnswerChunk no_history_message]
       \<and> calls (snd (stream_response_with_citations svc question use_citations use_reranking config ag)) =
           calls ag @ (case graph ag of None \<Rightarrow> []
                       | Some g \<Rightarrow> [GetState (case config of None \<Rightarrow> ''1'' | Some c \<Rightarrow> c)])"
proof -
  define cfg where "cfg = (case config of None \<Rightarrow> ''1'' | Some c \<Rightarrow> c)"
  define ag' where "ag' = snd (get_conversation_history svc cfg ag)"
  have h: "get_conversation_history svc cfg ag = (Inr [], ag')"
    using assms(2) unfolding cfg_def ag'_def by (metis prod.collapse)
  have st: "calls ag' = calls ag @ (case graph ag of None \<Rightarrow> [] | Some g \<Rightarrow> [GetState cfg])
            \<and> graph ag' = graph ag"
    unfolding ag'_def
    by (auto simp: get_conversation_history_def io_defs split: option.splits sum.splits)
  have a: "ask_question svc question use_citations use_reranking config ag =
             (Inr \<lparr>answer = no_history_message, citations = []\<rparr>, ag')"
    using assms(1) h
    by (simp add: ask_question_def Let_def bind_def try_except_def ret_def cfg_def)
  have b: "stream_response_with_citations svc question use_citations use_reranking config ag =
             ([StatusChunk SearchingHistory, AnswerChunk no_history_message], ag')"
    using assms(1) h
    by (simp add: stream_response_with_citations_def handle_history_question_def Let_def
                  bind_def try_except_def ret_def yield_def lift_def cfg_def)
  show ?thesis using a b st unfolding cfg_def by simp
qed

theorem history_question_without_memory_witness:
  "fst (ask_question (example_services \<lparr>answer = ''fast'', citations = []\<rparr> six_documents)
          ''What did I ask earlier?'' True False None \<lparr>graph = Some (), calls = []\<rparr>) =
     Inr \<lparr>answer = no_history_message, citations = []\<rparr>
   \<and> calls (snd (ask_question (example_services \<lparr>answer = ''fast'', citations = []\<rparr> six_documents)
          ''What did I ask earlier?'' True False None \<lparr>graph = Some (), calls = []\<rparr>)) = [GetState ''1'']"
proof -
  let ?svc = "example_services \<lparr>answer = ''fast'', citations = []\<rparr> six_documents"
  have "fst (get_conversation_history ?svc (case None of None \<Rightarrow> ''1'' | Some c \<Rightarrow> c)
               \<lparr>graph = Some (), calls = []\<rparr>) = Inr []"
    by (simp add: get_conversation_history_def io_defs example_services_def)
  then show ?thesis
    using history_question_without_memory[OF history_example, of ?svc None "\<lparr>graph = Some (), calls = []\<rparr>" True False]
    by simp
qed

text \<open>
  Claim C1 does not hold of the code. With two retrieved documents and a model answer
  that cites source \<open>- 1\<close>, the streaming path emits a citation chunk with source id
  \<open>- 1\<close>, outside \<open>[0, 2)\<close>; the blocking path returns the model's citations as they
  are, be the source id \<open>- 1\<close> or \<open>7\<close>.
\<close>

theorem negative_source_id_reaches_the_caller:
  "fst (stream_response_with_citations (example_services (cited_reply (- 1)) [doc_intro, doc_quickstart])
          ''what is cerebras'' True False None fresh_agent) =
     [StatusChunk RetrievingDocumentation, StatusChunk (RetrievedDocuments 2),
      StatusChunk GeneratingWithCitations, AnswerChunk ''It is fast.'', CitationsHeader,
      CitationChunk (- 1) ''high speed'' ''Untitled'' ''https://inference-docs.cerebras.ai/quickstart'']
   \<and> fst (ask_question (example_services (cited_reply (- 1)) [doc_intro, doc_quickstart])
          ''what is cerebras'' True False None fresh_agent) = Inr (cited_reply (- 1))
   \<and> fst (ask_question (example_services (cited_reply 7) [doc_intro, doc_quickstart])
          ''what is cerebras'' True False None fresh_agent) = Inr (cited_reply 7)"
  using not_history_example
  by (simp add: stream_response_with_citations_def ask_question_def retrieve_with_citations_def
        generate_with_citations_def save_exchange_stream_def graph_ready_def
        response_answer_def response_citations_def io_defs yield_def lift_def Let_def
        example_services_def cited_reply_def fresh_agent_def py_index_def
        doc_intro_def doc_quickstart_def)

text \<open>
  Claim C10 as stated fails for a negative source id below \<open>- len(documents)\<close>: with two
  documents and source id \<open>- 3\<close> the guard is passed, the lookup raises
  \<^verbatim>\<open>IndexError\<close>, and the stream ends with an error chunk in place of the citation chunk.
\<close>

theorem far_negative_source_id_aborts_the_stream:
  "fst (stream_response_with_citations (example_services (cited_reply (- 3)) [doc_intro, doc_quickstart])
          ''what is cerebras'' True False None fresh_agent) =
     [StatusChunk RetrievingDocumentation, StatusChunk (RetrievedDocuments 2),
      StatusChunk GeneratingWithCitations, AnswerChunk ''It is fast.'', CitationsHeader,
      ErrorChunk ''An error occurred: list index out of range'']"
  using not_history_example
  by (simp add: stream_response_with_citations_def retrieve_with_citations_def
        generate_with_citations_def save_exchange_stream_def graph_ready_def
        response_answer_def response_citations_def io_defs yield_def lift_def Let_def
        example_services_def cited_reply_def fresh_agent_def py_index_def
        doc_intro_def doc_quickstart_def)

lemma emit_citations_guard:
  "(int (length documents) \<le> source_id c \<longrightarrow>
      emit_citations documents (c # cs) (out, s) = emit_citations documents cs (out, s))
   \<and> (0 \<le> source_id c \<and> source_id c < int (length documents) \<longrightarrow>
      emit_citations documents (c # cs) (out, s) =
        emit_citations documents cs (out @ [citation_chunk c (documents ! nat (source_id c))], s))
   \<and> (source_id c < 0 \<and> - int (length documents) \<le> source_id c \<longrightarrow>
      emit_citations documents (c # cs) (out, s) =
        emit_citations documents cs
          (out @ [citation_chunk c (documents ! nat (int (length documents) + source_id c))], s))
   \<and> (source_id c < - int (length documents) \<longrightarrow>
      emit_citations documents (c # cs) (out, s) = (Inl (Exn ''list index out of range''), (out, s)))
   \<and> (documents \<noteq> [] \<and> source_id c = - 1 \<longrightarrow>
      emit_citations documents (c # cs) (out, s) =
        emit_citations documents cs (out @ [citation_chunk c (last documents)], s))"
proof -
  have len: "documents \<noteq> [] \<Longrightarrow> 1 \<le> int (length documents)"
    by (cases documents) auto
  have idx: "documents \<noteq> [] \<Longrightarrow> nat (int (length documents) + - 1) = length documents - 1"
    by (cases documents) auto
  have upper: "int (length documents) \<le> source_id c \<longrightarrow>
      emit_citations documents (c # cs) (out, s) = emit_citations documents cs (out, s)"
    by simp
  have inside: "0 \<le> source_id c \<and> source_id c < int (length documents) \<longrightarrow>
      emit_citations documents (c # cs) (out, s) =
        emit_citations documents cs (out @ [citation_chunk c (documents ! nat (source_id c))], s)"
    by (simp add: py_index_def bind_def yield_def Let_def citation_chunk_def)
  have negative: "source_id c < 0 \<and> - int (length documents) \<le> source_id c \<longrightarrow>
      emit_citations documents (c # cs) (out, s) =
        emit_citations documents cs
          (out @ [citation_chunk c (documents ! nat (int (length documents) + source_id c))], s)"
    by (simp add: py_index_def bind_def yield_def Let_def citation_chunk_def)
  have beyond: "source_id c < - int (length documents) \<longrightarrow>
      emit_citations documents (c # cs) (out, s) = (Inl (Exn ''list index out of range''), (out, s))"
    by (simp add: py_index_def bind_def)
  have minus_one: "documents \<noteq> [] \<and> source_id c = - 1 \<longrightarrow>
      emit_citations documents (c # cs) (out, s) =
        emit_citations documents cs (out @ [citation_chunk c (last documents)], s)"
    using negative len idx by (auto simp: last_conv_nth)
  show ?thesis using upper inside negative beyond minus_one by blast
qed

lemma emit_citations_step:
  "emit_citations documents (c # cs) (out, s) =
     (if int (length documents) \<le> source_id c then emit_citations documents cs (out, s)
      else if - int (length documents) \<le> source_id c
      then emit_citations documents cs
             (out @ [citation_chunk c
                (documents ! nat (if source_id c < 0 then int (length documents) + source_id c
                                  else source_id c))], s)
      else (Inl (Exn ''list index out of range''), (out, s)))"
  by (simp add: py_index_def bind_def yield_def Let_def citation_chunk_def)

lemma emit_citations_good:
  "\<forall>c \<in> set cs. - int (length documents) \<le> source_id c \<Longrightarrow>
   emit_citations documents cs (out, s) = (Inr (), (out @ shown_citations documents cs, s))"
proof (induction cs arbitrary: out)
  case Nil
  show ?case by (simp add: ret_def shown_citations_def)
next
  case (Cons c cs)
  have c: "- int (length documents) \<le> source_id c" using Cons.prems by simp
  have rest: "\<forall>c \<in> set cs. - int (length documents) \<le> source_id c" using Cons.prems by simp
  show ?case
    unfolding emit_citations_step using c Cons.IH[OF rest]
    by (simp add: shown_citations_def)
qed

lemma emit_citations_bad:
  assumes "\<forall>c \<in> set good. - int (length documents) \<le> source_id c"
      and "source_id c < - int (length documents)"
  shows "emit_citations documents (good @ c # rest) (out, s) =
           (Inl (Exn ''list index out of range''), (out @ shown_citations documents good, s))"
  using assms(1)
proof (induction good arbitrary: out)
  case Nil
  show ?case unfolding append_Nil emit_citations_step using assms(2)
    by (simp add: shown_citations_def)
next
  case (Cons g good)
  have g: "- int (length documents) \<le> source_id g" using Cons.prems by simp
  have rest: "\<forall>c \<in> set good. - int (length documents) \<le> source_id c" using Cons.prems by simp
  show ?case
    unfolding append_Cons emit_citations_step using g Cons.IH[OF rest]
    by (simp add: shown_citations_def)
qed

lemma save_exchange_stream_result:
  "save_exchange_stream svc config question reply (out, ag) =
     (Inr (),
      (out @ (case graph ag of
                None \<Rightarrow> []
              | Some g \<Rightarrow>
                  (case fst (graph_invoke svc g config [HumanMessage question, AIMessage reply]) of
                     Inl e \<Rightarrow> [WarningChunk (''Failed to save to memory: '' @ str_exn e)]
                   | Inr _ \<Rightarrow> [])),
       (case graph ag of
          None \<Rightarrow> ag
        | Some g \<Rightarrow>
            ag\<lparr>graph := Some (snd (graph_invoke svc g config [HumanMessage question, AIMessage reply])),
               calls := calls ag @ [GraphInvoke config [HumanMessage question, AIMessage reply]]\<rparr>)))"
  by (auto simp: save_exchange_stream_def graph_ready_def graph_invoke_io_def lift_def bind_def
        try_except_def ret_def yield_def split: option.splits sum.splits prod.splits)

lemma stream_citation_path:
  assumes "\<not> is_conversation_history_question question"
      and "retrieve_with_citations svc question 6 use_reranking ag = (Inr documents, ag1)"
      and "documents \<noteq> []"
      and "generate_with_citations svc question documents True ag1 = (Inr (Structured qa), ag2)"
  shows "stream_response_with_citations svc question True use_reranking config ag =
     (case try_except
             (bind (if citations qa \<noteq> [] then
                      bind (yield CitationsHeader) (\<lambda>_. emit_citations documents (citations qa))
                    else ret ())
                (\<lambda>_. save_exchange_stream svc (case config of None \<Rightarrow> ''1'' | Some c \<Rightarrow> c)
                        question (answer qa)))
             (\<lambda>e. yield (ErrorChunk (''An error occurred: '' @ str_exn e)))
             ([StatusChunk RetrievingDocumentation, StatusChunk (RetrievedDocuments (length documents)),
               StatusChunk GeneratingWithCitations, AnswerChunk (answer qa)], ag2)
      of (r, (out, ag')) \<Rightarrow> (out, ag'))"
  using assms
  by (simp add: stream_response_with_citations_def Let_def bind_def try_except_def ret_def
        yield_def lift_def response_answer_def response_citations_def split: prod.splits sum.splits)

text \<open>
  Claim C10, as amended. Take a question that goes to retrieval, a non-empty retrieval
  result and a structured answer. The stream filters the citations by the upper bound
  only. When no source id is below \<open>- len(documents)\<close>, the stream is the three status
  chunks, the answer, the citations header and one citation chunk for every citation whose
  source id is below \<open>len(documents)\<close>, negative ones included and resolved from the end
  of the list (the last document for \<open>- 1\<close>), then the warning of a failed memory save if
  any. When a source id is below \<open>- len(documents)\<close>, the lookup raises \<^verbatim>\<open>IndexError\<close>:
  the stream holds the chunks of the citations before the first such one and ends with the
  error chunk of the outer handler, and nothing is saved to memory. The last conjunct is
  one turn of the citation loop.
\<close>

theorem stream_citations_guard:
  assumes "\<not> is_conversation_history_question question"
      and "retrieve_with_citations svc question 6 use_reranking ag = (Inr documents, ag1)"
      and "documents \<noteq> []"
      and "generate_with_citations svc question documents True ag1 = (Inr (Structured qa), ag2)"
  shows
   "((\<forall>c \<in> set (citations qa). - int (length documents) \<le> source_id c) \<longrightarrow>
       fst (stream_response_with_citations svc question True use_reranking config ag) =
         [StatusChunk RetrievingDocumentation, StatusChunk (RetrievedDocuments (length documents)),
          StatusChunk GeneratingWithCitations, AnswerChunk (answer qa)]
         @ (if citations qa = [] then []
            else CitationsHeader # shown_citations documents (citations qa))
         @ (case graph ag2 of
              None \<Rightarrow> []
            | Some g \<Rightarrow>
                (case fst (graph_invoke svc g (case config of None \<Rightarrow> ''1'' | Some c \<Rightarrow> c)
                             [HumanMessage question, AIMessage (answer qa)]) of
                   Inl e \<Rightarrow> [WarningChunk (''Failed to save to memory: '' @ str_exn e)]
                 | Inr _ \<Rightarrow> [])))
    \<and> (\<forall>good c rest.
          citations qa = good @ c # rest
          \<and> (\<forall>g \<in> set good. - int (length documents) \<le> source_id g)
          \<and> source_id c < - int (length documents) \<longrightarrow>
          stream_response_with_citations svc question True use_reranking config ag =
            ([StatusChunk RetrievingDocumentation, StatusChunk (RetrievedDocuments (length documents)),
              StatusChunk GeneratingWithCitations, AnswerChunk (answer qa), CitationsHeader]
             @ shown_citations documents good
             @ [ErrorChunk ''An error occurred: list index out of range''],
             ag2))
    \<and> (\<forall>c cs out s.
          (int (length documents) \<le> source_id c \<longrightarrow>
             emit_citations documents (c # cs) (out, s) = emit_citations documents cs (out, s))
          \<and> (0 \<le> source_id c \<and> source_id c < int (length documents) \<longrightarrow>
             emit_citations documents (c # cs) (out, s) =
               emit_citations documents cs (out @ [citation_chunk c (documents ! nat (source_id c))], s))
          \<and> (source_id c < 0 \<and> - int (length documents) \<le> source_id c \<longrightarrow>
             emit_citations documents (c # cs) (out, s) =
               emit_citations documents cs
                 (out @ [citation_chunk c (documents ! nat (int (length documents) + source_id c))], s))
          \<and> (source_id c < - int (length documents) \<longrightarrow>
             emit_citations documents (c # cs) (out, s) = (Inl (Exn ''list index out of range''), (out, s)))
          \<and> (source_id c = - 1 \<longrightarrow>
             emit_citations documents (c # cs) (out, s) =
               emit_citations documents cs (out @ [citation_chunk c (last documents)], s)))"
proof -
  let ?cfg = "case config of None \<Rightarrow> ''1'' | Some c \<Rightarrow> c"
  let ?head = "[StatusChunk RetrievingDocumentation, StatusChunk (RetrievedDocuments (length documents)),
          StatusChunk GeneratingWithCitations, AnswerChunk (answer qa)]"
  note path = stream_citation_path[OF assms, of config]
  have good: "(\<forall>c \<in> set (citations qa). - int (length documents) \<le> source_id c) \<longrightarrow>
       fst (stream_response_with_citations svc question True use_reranking config ag) =
         ?head
         @ (if citations qa = [] then []
            else CitationsHeader # shown_citations documents (citations qa))
         @ (case graph ag2 of
              None \<Rightarrow> []
            | Some g \<Rightarrow>
                (case fst (graph_invoke svc g ?cfg [HumanMessage question, AIMessage (answer qa)]) of
                   Inl e \<Rightarrow> [WarningChunk (''Failed to save to memory: '' @ str_exn e)]
                 | Inr _ \<Rightarrow> []))"
  proof
    assume ok: "\<forall>c \<in> set (citations qa). - int (length documents) \<le> source_id c"
    show "fst (stream_response_with_citations svc question True use_reranking config ag) =
         ?head
         @ (if citations qa = [] then []
            else CitationsHeader # shown_citations documents (citations qa))
         @ (case graph ag2 of
              None \<Rightarrow> []
            | Some g \<Rightarrow>
                (case fst (graph_invoke svc g ?cfg [HumanMessage question, AIMessage (answer qa)]) of
                   Inl e \<Rightarrow> [WarningChunk (''Failed to save to memory: '' @ str_exn e)]
                 | Inr _ \<Rightarrow> []))"
      unfolding path
      by (simp add: try_except_def bind_def ret_def yield_def emit_citations_good[OF ok]
            save_exchange_stream_result)
  qed
  have bad: "\<forall>good c rest.
          citations qa = good @ c # rest
          \<and> (\<forall>g \<in> set good. - int (length documents) \<le> source_id g)
          \<and> source_id c < - int (length documents) \<longrightarrow>
          stream_response_with_citations svc question True use_reranking config ag =
            (?head @ [CitationsHeader] @ shown_citations documents good
             @ [ErrorChunk ''An error occurred: list index out of range''],
             ag2)"
  proof (intro allI impI, elim conjE)
    fix good c rest
    assume cs: "citations qa = good @ c # rest"
       and g: "\<forall>g \<in> set good. - int (length documents) \<le> source_id g"
       and c: "source_id c < - int (length documents)"
    show "stream_response_with_citations svc question True use_reranking config ag =
            (?head @ [CitationsHeader] @ shown_citations documents good
             @ [ErrorChunk ''An error occurred: list index out of range''],
             ag2)"
      unfolding path cs
      by (simp add: try_except_def bind_def ret_def yield_def emit_citations_bad[OF g c])
  qed
  have step: "\<forall>c cs out s.
          (int (length documents) \<le> source_id c \<longrightarrow>
             emit_citations documents (c # cs) (out, s) = emit_citations documents cs (out, s))
          \<and> (0 \<le> source_id c \<and> source_id c < int (length documents) \<longrightarrow>
             emit_citations documents (c # cs) (out, s) =
               emit_citations documents cs (out @ [citation_chunk c (documents ! nat (source_id c))], s))
          \<and> (source_id c < 0 \<and> - int (length documents) \<le> source_id c \<longrightarrow>
             emit_citations documents (c # cs) (out, s) =
               emit_citations documents cs
                 (out @ [citation_chunk c (documents ! nat (int (length documents) + source_id c))], s))
          \<and> (source_id c < - int (length documents) \<longrightarrow>
             emit_citations documents (c # cs) (out, s) = (Inl (Exn ''list index out of range''), (out, s)))
          \<and> (source_id c = - 1 \<longrightarrow>
             emit_citations documents (c # cs) (out, s) =
               emit_citations documents cs (out @ [citation_chunk c (last documents)], s))"
  proof (intro allI)
    fix c cs out s
    show "(int (length documents) \<le> source_id c \<longrightarrow>
             emit_citations documents (c # cs) (out, s) = emit_citations documents cs (out, s))
          \<and> (0 \<le> source_id c \<and> source_id c < int (length documents) \<longrightarrow>
             emit_citations documents (c # cs) (out, s) =
               emit_citations documents cs (out @ [citation_chunk c (documents ! nat (source_id c))], s))
          \<and> (source_id c < 0 \<and> - int (length documents) \<le> source_id c \<longrightarrow>
             emit_citations documents (c # cs) (out, s) =
               emit_citations documents cs
                 (out @ [citation_chunk c (documents ! nat (int (length documents) + source_id c))], s))
          \<and> (source_id c < - int (length documents) \<longrightarrow>
             emit_citations documents (c # cs) (out, s) = (Inl (Exn ''list index out of range''), (out, s)))
          \<and> (source_id c = - 1 \<longrightarrow>
             emit_citations documents (c # cs) (out, s) =
               emit_citations documents cs (out @ [citation_chunk c (last documents)], s))"
      using emit_citations_guard[of documents c cs out s] assms(3) by simp
  qed
  show ?thesis
    apply (intro conjI)
    apply (rule good)
    using bad apply simp
    apply (rule step)
    done
qed

theorem stream_citations_guard_witness:
  "fst (stream_response_with_citations (example_services (cited_reply (- 1)) [doc_intro, doc_quickstart])
          ''what is cerebras'' True False None fresh_agent) =
     [StatusChunk RetrievingDocumentation, StatusChunk (RetrievedDocuments 2),
      StatusChunk GeneratingWithCitations, AnswerChunk ''It is fast.'', CitationsHeader,
      CitationChunk (- 1) ''high speed'' ''Untitled'' ''https://inference-docs.cerebras.ai/quickstart'']
   \<and> fst (stream_response_with_citations (example_services (cited_reply (- 3)) [doc_intro, doc_quickstart])
          ''what is cerebras'' True False None fresh_agent) =
     [StatusChunk RetrievingDocumentation, StatusChunk (RetrievedDocuments 2),
      StatusChunk GeneratingWithCitations, AnswerChunk ''It is fast.'', CitationsHeader,
      ErrorChunk ''An error occurred: list index out of range'']"
proof -
  let ?docs = "[doc_intro, doc_quickstart]"
  let ?q = "''what is cerebras''"
  have run: "\<And>k. \<exists>ag1 ag2.
      retrieve_with_citations (example_services (cited_reply k) ?docs) ?q 6 False fresh_agent
        = (Inr ?docs, ag1)
      \<and> generate_with_citations (example_services (cited_reply k) ?docs) ?q ?docs True ag1
        = (Inr (Structured (cited_reply k)), ag2)
      \<and> graph ag2 = None"
    by (simp add: retrieve_with_citations_def generate_with_citations_def io_defs Let_def
          example_services_def fresh_agent_def)
  from run[of "- 1"] obtain ag1 ag2 where
      r1: "retrieve_with_citations (example_services (cited_reply (- 1)) ?docs) ?q 6 False fresh_agent
             = (Inr ?docs, ag1)"
      and g1: "generate_with_citations (example_services (cited_reply (- 1)) ?docs) ?q ?docs True ag1
             = (Inr (Structured (cited_reply (- 1))), ag2)"
      and n1: "graph ag2 = None"
    by blast
  from run[of "- 3"] obtain ag3 ag4 where
      r3: "retrieve_with_citations (example_services (cited_reply (- 3)) ?docs) ?q 6 False fresh_agent
             = (Inr ?docs, ag3)"
      and g3: "generate_with_citations (example_services (cited_reply (- 3)) ?docs) ?q ?docs True ag3
             = (Inr (Structured (cited_reply (- 3))), ag4)"
    by blast
  have ne: "?docs \<noteq> []" by simp
  have ok: "\<forall>c \<in> set (citations (cited_reply (- 1))). - int (length ?docs) \<le> source_id c"
    by (simp add: cited_reply_def)
  have a: "fst (stream_response_with_citations (example_services (cited_reply (- 1)) ?docs)
          ?q True False None fresh_agent) =
     [StatusChunk RetrievingDocumentation, StatusChunk (RetrievedDocuments 2),
      StatusChunk GeneratingWithCitations, AnswerChunk ''It is fast.'', CitationsHeader,
      CitationChunk (- 1) ''high speed'' ''Untitled'' ''https://inference-docs.cerebras.ai/quickstart'']"
  proof -
    from stream_citations_guard[OF not_history_example r1 ne g1, of None] ok
    have E: "fst (stream_response_with_citations (example_services (cited_reply (- 1)) ?docs)
          ?q True False None fresh_agent) =
         [StatusChunk RetrievingDocumentation, StatusChunk (RetrievedDocuments (length ?docs)),
          StatusChunk GeneratingWithCitations, AnswerChunk (answer (cited_reply (- 1)))]
         @ (if citations (cited_reply (- 1)) = [] then []
            else CitationsHeader # shown_citations ?docs (citations (cited_reply (- 1))))
         @ (case graph ag2 of
              None \<Rightarrow> []
            | Some g \<Rightarrow>
                (case fst (graph_invoke (example_services (cited_reply (- 1)) ?docs) g
                             (case None of None \<Rightarrow> ''1'' | Some c \<Rightarrow> c)
                             [HumanMessage ?q, AIMessage (answer (cited_reply (- 1)))]) of
                   Inl e \<Rightarrow> [WarningChunk (''Failed to save to memory: '' @ str_exn e)]
                 | Inr _ \<Rightarrow> []))"
      by blast
    have R: "[StatusChunk RetrievingDocumentation, StatusChunk (RetrievedDocuments (length ?docs)),
          StatusChunk GeneratingWithCitations, AnswerChunk (answer (cited_reply (- 1)))]
         @ (if citations (cited_reply (- 1)) = [] then []
            else CitationsHeader # shown_citations ?docs (citations (cited_reply (- 1))))
         @ (case graph ag2 of
              None \<Rightarrow> []
            | Some g \<Rightarrow>
                (case fst (graph_invoke (example_services (cited_reply (- 1)) ?docs) g
                             (case None of None \<Rightarrow> ''1'' | Some c \<Rightarrow> c)
                             [HumanMessage ?q, AIMessage (answer (cited_reply (- 1)))]) of
                   Inl e \<Rightarrow> [WarningChunk (''Failed to save to memory: '' @ str_exn e)]
                 | Inr _ \<Rightarrow> []))
       = [StatusChunk RetrievingDocumentation, StatusChunk (RetrievedDocuments 2),
          StatusChunk GeneratingWithCitations, AnswerChunk ''It is fast.'', CitationsHeader,
          CitationChunk (- 1) ''high speed'' ''Untitled'' ''https://inference-docs.cerebras.ai/quickstart'']"
      using n1 by (simp add: cited_reply_def shown_citations_def citation_chunk_def doc_quickstart_def)
    show ?thesis by (rule trans[OF E R])
  qed
  have split: "citations (cited_reply (- 3)) = [] @ \<lparr>source_id = - 3, quote = ''high speed''\<rparr> # []
      \<and> (\<forall>g \<in> set []. - int (length ?docs) \<le> source_id g)
      \<and> source_id \<lparr>source_id = - 3, quote = ''high speed''\<rparr> < - int (length ?docs)"
    by (simp add: cited_reply_def)
  have b: "fst (stream_response_with_citations (example_services (cited_reply (- 3)) ?docs)
          ?q True False None fresh_agent) =
     [StatusChunk RetrievingDocumentation, StatusChunk (RetrievedDocuments 2),
      StatusChunk GeneratingWithCitations, AnswerChunk ''It is fast.'', CitationsHeader,
      ErrorChunk ''An error occurred: list index out of range'']"
  proof -
    from stream_citations_guard[OF not_history_example r3 ne g3, of None] split
    have "stream_response_with_citations (example_services (cited_reply (- 3)) ?docs)
            ?q True False None fresh_agent =
            ([StatusChunk RetrievingDocumentation, StatusChunk (RetrievedDocuments (length ?docs)),
              StatusChunk GeneratingWithCitations, AnswerChunk (answer (cited_reply (- 3))), CitationsHeader]
             @ shown_citations ?docs []
             @ [ErrorChunk ''An error occurred: list index out of range''],
             ag4)"
      by blast
    then show ?thesis by (simp add: cited_reply_def shown_citations_def)
  qed
  show ?thesis using a b by simp
qed

section \<open>The indexing pipeline: crawl policy, batches and ids\<close>

lemma crawl_all_result:
  "crawl_all svc log =
     (let primary = crawl_with_firecrawl svc ''https://inference-docs.cerebras.ai/'' in
      if length primary < 5
      then (primary @ crawl_fallback svc fallback_urls,
            log @ [CrawlFirecrawl ''https://inference-docs.cerebras.ai/'', CrawlFallback fallback_urls])
      else (primary, log @ [CrawlFirecrawl ''https://inference-docs.cerebras.ai/'']))"
  by (simp add: crawl_all_def base_urls_def Let_def)

lemma process_batch_result:
  "process_batch svc documents i log =
     (Inr (),
      log @ (let texts = map page_content (take batch_size (drop i documents)) in
             case embed_documents svc texts of
               Inl e \<Rightarrow> [EmbedDocuments texts]
             | Inr embeddings \<Rightarrow>
                 [EmbedDocuments texts,
                  Upsert (batch_vectors i (take batch_size (drop i documents)) embeddings)]))"
  by (auto simp: process_batch_def io_defs called_def Let_def split: sum.splits)

lemma populate_batches_unfold:
  "populate_batches svc documents i log =
     (if i < length documents
      then populate_batches svc documents (i + batch_size) (snd (process_batch svc documents i log))
      else (Inr (), log))"
proof -
  have "populate_batches svc documents i =
     (if i < length documents then
        bind (process_batch svc documents i) (\<lambda>_. populate_batches svc documents (i + batch_size))
      else ret ())"
    by (rule populate_batches.simps)
  then show ?thesis
    by (simp add: bind_def ret_def process_batch_result)
qed

lemma populate_batches_ok: "fst (populate_batches svc documents i log) = Inr ()"
proof (induction svc documents i arbitrary: log rule: populate_batches.induct)
  case (1 svc documents i)
  show ?case
  proof (cases "i < length documents")
    case True
    then show ?thesis using "1.IH"[OF True] by (subst populate_batches_unfold) simp
  next
    case False
    then show ?thesis by (subst populate_batches_unfold) simp
  qed
qed

lemma populate_batches_log:
  "snd (populate_batches svc documents i log) = log @ snd (populate_batches svc documents i [])"
proof (induction svc documents i arbitrary: log rule: populate_batches.induct)
  case (1 svc documents i)
  show ?case
  proof (cases "i < length documents")
    case True
    obtain ev where ev: "\<And>l. snd (process_batch svc documents i l) = l @ ev"
      by (simp add: process_batch_result)
    have "snd (populate_batches svc documents i log)
            = snd (populate_batches svc documents (i + batch_size) (log @ ev))"
      using True ev by (subst populate_batches_unfold) simp
    also have "\<dots> = (log @ ev) @ snd (populate_batches svc documents (i + batch_size) [])"
      by (rule "1.IH"[OF True])
    also have "\<dots> = log @ snd (populate_batches svc documents (i + batch_size) ([] @ ev))"
      using "1.IH"[OF True, of "[] @ ev"] by simp
    also have "\<dots> = log @ snd (populate_batches svc documents i [])"
      using True ev[of "[]"] by (subst (2) populate_batches_unfold) simp
    finally show ?thesis .
  next
    case False
    then show ?thesis by (subst (1 2) populate_batches_unfold) simp
  qed
qed

lemma populate_batches_step:
  assumes "i < length documents"
  shows "snd (populate_batches svc documents i []) =
           snd (process_batch svc documents i [])
           @ snd (populate_batches svc documents (i + batch_size) [])"
proof -
  have "snd (populate_batches svc documents i [])
          = snd (populate_batches svc documents (i + batch_size) (snd (process_batch svc documents i [])))"
    using assms by (subst populate_batches_unfold) simp
  then show ?thesis using populate_batches_log by metis
qed

lemma populate_batches_done:
  "\<not> i < length documents \<Longrightarrow> snd (populate_batches svc documents i []) = []"
  by (subst populate_batches_unfold) simp

lemma upsert_in_batches:
  "Upsert vs \<in> set (snd (populate_batches svc documents i [])) \<Longrightarrow>
     \<exists>b embeddings. i + batch_size * b < length documents
        \<and> embed_documents svc (map page_content (take batch_size (drop (i + batch_size * b) documents)))
            = Inr embeddings
        \<and> vs = batch_vectors (i + batch_size * b)
                  (take batch_size (drop (i + batch_size * b) documents)) embeddings"
proof (induction svc documents i rule: populate_batches.induct)
  case (1 svc documents i)
  show ?case
  proof (cases "i < length documents")
    case False
    then show ?thesis using "1.prems" by (simp add: populate_batches_done)
  next
    case True
    from "1.prems" consider
        (here) "Upsert vs \<in> set (snd (process_batch svc documents i []))"
      | (later) "Upsert vs \<in> set (snd (populate_batches svc documents (i + batch_size) []))"
      by (auto simp: populate_batches_step[OF True])
    then show ?thesis
    proof cases
      case here
      then obtain embeddings where
          "embed_documents svc (map page_content (take batch_size (drop i documents))) = Inr embeddings"
          "vs = batch_vectors i (take batch_size (drop i documents)) embeddings"
        by (auto simp: process_batch_result Let_def split: sum.splits)
      then show ?thesis using True by (intro exI[of _ 0] exI[of _ embeddings]) simp
    next
      case later
      from "1.IH"[OF True later] obtain b embeddings where
          "i + batch_size + batch_size * b < length documents"
          "embed_documents svc (map page_content (take batch_size (drop (i + batch_size + batch_size * b) documents)))
             = Inr embeddings"
          "vs = batch_vectors (i + batch_size + batch_size * b)
                  (take batch_size (drop (i + batch_size + batch_size * b) documents)) embeddings"
        by blast
      then show ?thesis
        by (intro exI[of _ "Suc b"] exI[of _ embeddings]) (simp add: add.assoc)
    qed
  qed
qed

lemma batches_upsert:
  "i + batch_size * b < length documents \<Longrightarrow>
   embed_documents svc (map page_content (take batch_size (drop (i + batch_size * b) documents)))
     = Inr embeddings \<Longrightarrow>
   Upsert (batch_vectors (i + batch_size * b)
             (take batch_size (drop (i + batch_size * b) documents)) embeddings)
     \<in> set (snd (populate_batches svc documents i []))"
proof (induction b arbitrary: i)
  case 0
  then have i: "i < length documents" by simp
  have "Upsert (batch_vectors i (take batch_size (drop i documents)) embeddings)
          \<in> set (snd (process_batch svc documents i []))"
    using 0 by (simp add: process_batch_result Let_def)
  then show ?case by (simp add: populate_batches_step[OF i])
next
  case (Suc b)
  have i: "i < length documents" using Suc.prems(1) by simp
  have eq: "i + batch_size * Suc b = (i + batch_size) + batch_size * b" by simp
  have "Upsert (batch_vectors ((i + batch_size) + batch_size * b)
             (take batch_size (drop ((i + batch_size) + batch_size * b) documents)) embeddings)
     \<in> set (snd (populate_batches svc documents (i + batch_size) []))"
    using Suc.prems unfolding eq by (rule Suc.IH)
  then show ?case unfolding eq by (simp add: populate_batches_step[OF i])
qed

lemma batch_vectors_length:
  "length (batch_vectors i batch embeddings) = min (length batch) (length embeddings)"
  by (simp add: batch_vectors_def)

lemma batch_vectors_nth:
  "j < length (batch_vectors i batch embeddings) \<Longrightarrow>
   batch_vectors i batch embeddings ! j = vector_of i j (batch ! j) (embeddings ! j)"
  by (simp add: batch_vectors_def nth_enumerate_eq)

lemma vector_of_indexed:
  "indexed_as (i + j) doc (vec_id (vector_of i j doc e), vec_metadata (vector_of i j doc e))"
  by (simp add: indexed_as_def vector_of_def)

lemma batch_nth:
  assumes "j < length (batch_vectors i (take batch_size (drop i documents)) embeddings)"
  shows "i + j < length documents"
    and "batch_vectors i (take batch_size (drop i documents)) embeddings ! j
           = vector_of i j (documents ! (i + j)) (embeddings ! j)"
proof -
  have j: "j < batch_size" "j < length documents - i" "j < length embeddings"
    using assms by (simp_all add: batch_vectors_length)
  show "i + j < length documents" using j by simp
  have "take batch_size (drop i documents) ! j = documents ! (i + j)"
    using j by simp
  then show "batch_vectors i (take batch_size (drop i documents)) embeddings ! j
           = vector_of i j (documents ! (i + j)) (embeddings ! j)"
    using batch_vectors_nth[OF assms] by simp
qed

lemma upserted_batches_shape:
  assumes "Upsert vs \<in> set (snd (populate_batches svc documents 0 []))"
  shows "length vs \<le> 10
       \<and> (\<exists>b. \<forall>j < length vs. 10 * b + j < length documents
                \<and> indexed_as (10 * b + j) (documents ! (10 * b + j))
                     (vec_id (vs ! j), vec_metadata (vs ! j)))"
proof -
  from upsert_in_batches[OF assms] obtain b embeddings where
      vs: "vs = batch_vectors (batch_size * b) (take batch_size (drop (batch_size * b) documents)) embeddings"
    by auto
  have len: "length vs \<le> 10"
    unfolding vs by (simp add: batch_vectors_length batch_size_def)
  have "\<forall>j < length vs. 10 * b + j < length documents
                \<and> indexed_as (10 * b + j) (documents ! (10 * b + j))
                     (vec_id (vs ! j), vec_metadata (vs ! j))"
  proof (intro allI impI)
    fix j assume "j < length vs"
    then have j: "j < length (batch_vectors (batch_size * b)
                    (take batch_size (drop (batch_size * b) documents)) embeddings)"
      unfolding vs .
    show "10 * b + j < length documents
                \<and> indexed_as (10 * b + j) (documents ! (10 * b + j))
                     (vec_id (vs ! j), vec_metadata (vs ! j))"
      using batch_nth[OF j] vector_of_indexed[of "batch_size * b" j]
      unfolding vs by (simp add: batch_size_def)
  qed
  then show ?thesis using len by blast
qed

lemma every_offset_upserted:
  assumes embed: "\<And>texts. \<exists>es. embed_documents svc texts = Inr es \<and> length es = length texts"
      and n: "n < length documents"
  shows "\<exists>vs. Upsert vs \<in> set (snd (populate_batches svc documents 0 []))
           \<and> n mod 10 < length vs
           \<and> indexed_as n (documents ! n) (vec_id (vs ! (n mod 10)), vec_metadata (vs ! (n mod 10)))"
proof -
  define b where "b = n div 10"
  define batch where "batch = take batch_size (drop (batch_size * b) documents)"
  have off: "batch_size * b + n mod 10 = n"
    by (simp add: b_def batch_size_def)
  have start: "0 + batch_size * b < length documents"
    using n off by linarith
  obtain es where es: "embed_documents svc (map page_content batch) = Inr es"
      and les: "length es = length batch"
    using embed[of "map page_content batch"] by auto
  define vs where "vs = batch_vectors (batch_size * b) batch es"
  have mem: "Upsert vs \<in> set (snd (populate_batches svc documents 0 []))"
    using batches_upsert[of 0 b documents svc es] start es unfolding vs_def batch_def by simp
  have "n mod 10 < length batch"
    unfolding batch_def using n off by (simp add: batch_size_def)
  then have j: "n mod 10 < length (batch_vectors (batch_size * b)
                    (take batch_size (drop (batch_size * b) documents)) es)"
    using les by (simp add: batch_vectors_length batch_def)
  have "indexed_as n (documents ! n) (vec_id (vs ! (n mod 10)), vec_metadata (vs ! (n mod 10)))"
    using batch_nth(2)[OF j] vector_of_indexed[of "batch_size * b" "n mod 10" "documents ! n" "es ! (n mod 10)"]
    unfolding vs_def batch_def off by simp
  moreover have "n mod 10 < length vs" using j unfolding vs_def batch_def .
  ultimately show ?thesis using mem by blast
qed

lemma upsert_store_add: "upsert_store vs m = m ++ upsert_store vs Map.empty"
proof -
  have "\<And>m n. fold (\<lambda>v m'. m'(vec_id v \<mapsto> (vec_values v, vec_metadata v))) vs (m ++ n)
                = m ++ fold (\<lambda>v m'. m'(vec_id v \<mapsto> (vec_values v, vec_metadata v))) vs n"
    by (induction vs) (simp_all add: map_add_upd[symmetric] del: map_add_upd)
  from this[of m Map.empty] show ?thesis by (simp add: upsert_store_def)
qed

lemma replay_add: "replay svc l m = m ++ replay svc l Map.empty"
proof (induction l arbitrary: m)
  case Nil
  show ?case by simp
next
  case (Cons c cs)
  show ?case
  proof (cases "\<exists>vs. c = Upsert vs \<and> upsert svc vs = Inr ()")
    case True
    then obtain vs where c: "c = Upsert vs" and ok: "upsert svc vs = Inr ()" by blast
    have step: "\<And>m. replay svc (c # cs) m = replay svc cs (upsert_store vs m)"
      using c ok by simp
    have "replay svc (c # cs) m = replay svc cs (upsert_store vs m)"
      by (rule step)
    also have "\<dots> = upsert_store vs m ++ replay svc cs Map.empty"
      by (rule Cons.IH)
    also have "upsert_store vs m = m ++ upsert_store vs Map.empty"
      by (rule upsert_store_add)
    also have "(m ++ upsert_store vs Map.empty) ++ replay svc cs Map.empty
                 = m ++ (upsert_store vs Map.empty ++ replay svc cs Map.empty)"
      by (rule map_add_assoc[symmetric])
    also have "upsert_store vs Map.empty ++ replay svc cs Map.empty
                 = replay svc cs (upsert_store vs Map.empty)"
      by (rule Cons.IH[symmetric])
    also have "replay svc cs (upsert_store vs Map.empty) = replay svc (c # cs) Map.empty"
      by (rule step[symmetric])
    finally show ?thesis .
  next
    case False
    then have skip: "\<And>m. replay svc (c # cs) m = replay svc cs m"
      by (cases c) auto
    show ?thesis unfolding skip by (rule Cons.IH)
  qed
qed

lemma replay_append: "replay svc (l @ l') m = replay svc l' (replay svc l m)"
proof (induction l arbitrary: m)
  case Nil
  show ?case by simp
next
  case (Cons c cs)
  show ?case by (cases c) (simp_all add: Cons.IH)
qed

lemma replay_twice: "replay svc (l @ l) m = replay svc l m"
proof -
  define r where "r = replay svc l Map.empty"
  have a: "\<And>m. replay svc l m = m ++ r"
    unfolding r_def by (rule replay_add)
  have "replay svc (l @ l) m = (m ++ r) ++ r"
    unfolding replay_append a ..
  also have "\<dots> = m ++ r" by (rule ext) (simp add: map_add_def split: option.splits)
  finally show ?thesis unfolding a .
qed

lemma digit_char_inj: "d < 10 \<Longrightarrow> d' < 10 \<Longrightarrow> digit_char d = digit_char d' \<Longrightarrow> d = d'"
  by (simp add: digit_char_def char_of_eq_iff take_bit_nat_eq_self)

lemma str_nat_unfold:
  "str_nat n = (if n < 10 then [digit_char n] else str_nat (n div 10) @ [digit_char (n mod 10)])"
  by (rule str_nat.simps)

lemma str_nat_nonempty: "str_nat n \<noteq> []"
  by (subst str_nat_unfold) simp

lemma str_nat_inj: "str_nat n = str_nat m \<Longrightarrow> n = m"
proof (induction n arbitrary: m rule: less_induct)
  case (less n)
  show ?case
  proof (cases "n < 10")
    case True
    show ?thesis
    proof (cases "m < 10")
      case m: True
      have "[digit_char n] = [digit_char m]"
        using less.prems True m by (subst (asm) (1 2) str_nat_unfold) simp
      then show ?thesis using digit_char_inj[OF True m] by simp
    next
      case m: False
      have "[digit_char n] = str_nat (m div 10) @ [digit_char (m mod 10)]"
        using less.prems True m by (subst (asm) (1 2) str_nat_unfold) simp
      then show ?thesis using str_nat_nonempty[of "m div 10"] by simp
    qed
  next
    case False
    show ?thesis
    proof (cases "m < 10")
      case m: True
      have "str_nat (n div 10) @ [digit_char (n mod 10)] = [digit_char m]"
        using less.prems False m by (subst (asm) (1 2) str_nat_unfold) simp
      then show ?thesis using str_nat_nonempty[of "n div 10"] by simp
    next
      case m: False
      have "str_nat (n div 10) @ [digit_char (n mod 10)] = str_nat (m div 10) @ [digit_char (m mod 10)]"
        using less.prems False m by (subst (asm) (1 2) str_nat_unfold) simp
      then have a: "str_nat (n div 10) = str_nat (m div 10)"
          and b: "digit_char (n mod 10) = digit_char (m mod 10)"
        by simp_all
      have "n div 10 < n" using False by simp
      then have "n div 10 = m div 10" using less.IH a by blast
      moreover have "n mod 10 = m mod 10" using b by (intro digit_char_inj) simp_all
      ultimately show ?thesis by (metis div_mult_mod_eq)
    qed
  qed
qed

lemma dom_upsert_store: "dom (upsert_store vs m) = dom m \<union> vec_id ` set vs"
proof -
  have "\<And>m. dom (fold (\<lambda>v m'. m'(vec_id v \<mapsto> (vec_values v, vec_metadata v))) vs m)
             = dom m \<union> vec_id ` set vs"
    by (induction vs) auto
  then show ?thesis by (simp add: upsert_store_def)
qed

lemma upsert_store_entry:
  assumes "upsert_store vs m k = Some x"
  shows "m k = Some x \<or> (\<exists>v \<in> set vs. vec_id v = k \<and> x = (vec_values v, vec_metadata v))"
proof -
  have "\<And>m. fold (\<lambda>v m'. m'(vec_id v \<mapsto> (vec_values v, vec_metadata v))) vs m k = Some x
          \<Longrightarrow> m k = Some x \<or> (\<exists>v \<in> set vs. vec_id v = k \<and> x = (vec_values v, vec_metadata v))"
  proof (induction vs)
    case Nil
    then show ?case by simp
  next
    case (Cons v vs)
    from Cons.IH[of "m(vec_id v \<mapsto> (vec_values v, vec_metadata v))"] Cons.prems
    show ?case by (auto split: if_splits)
  qed
  then show ?thesis using assms by (simp add: upsert_store_def)
qed

lemma dom_replay:
  "dom (replay svc l m) = dom m \<union> {vec_id v |v vs. Upsert vs \<in> set l \<and> upsert svc vs = Inr () \<and> v \<in> set vs}"
proof (induction l arbitrary: m)
  case Nil
  show ?case by simp
next
  case (Cons c cs)
  show ?case
  proof (cases "\<exists>vs. c = Upsert vs \<and> upsert svc vs = Inr ()")
    case True
    then obtain vs where c: "c = Upsert vs" and ok: "upsert svc vs = Inr ()" by blast
    have "dom (replay svc (c # cs) m) = dom (replay svc cs (upsert_store vs m))"
      using c ok by simp
    also have "\<dots> = (dom m \<union> vec_id ` set vs)
        \<union> {vec_id v |v vs. Upsert vs \<in> set cs \<and> upsert svc vs = Inr () \<and> v \<in> set vs}"
      unfolding Cons.IH dom_upsert_store ..
    also have "\<dots> = dom m
        \<union> {vec_id v |v vs'. Upsert vs' \<in> set (c # cs) \<and> upsert svc vs' = Inr () \<and> v \<in> set vs'}"
      using c ok by auto
    finally show ?thesis .
  next
    case False
    then have skip: "\<And>m. replay svc (c # cs) m = replay svc cs m"
      by (cases c) auto
    have "{vec_id v |v vs. Upsert vs \<in> set (c # cs) \<and> upsert svc vs = Inr () \<and> v \<in> set vs}
        = {vec_id v |v vs. Upsert vs \<in> set cs \<and> upsert svc vs = Inr () \<and> v \<in> set vs}"
      using False by auto
    then show ?thesis unfolding skip Cons.IH by simp
  qed
qed

lemma replay_entry:
  assumes "replay svc l m k = Some x"
  shows "m k = Some x
       \<or> (\<exists>vs v. Upsert vs \<in> set l \<and> v \<in> set vs \<and> vec_id v = k \<and> x = (vec_values v, vec_metadata v))"
  using assms
proof (induction l arbitrary: m)
  case Nil
  then show ?case by simp
next
  case (Cons c cs)
  show ?case
  proof (cases "\<exists>vs. c = Upsert vs \<and> upsert svc vs = Inr ()")
    case True
    then obtain vs where c: "c = Upsert vs" and ok: "upsert svc vs = Inr ()" by blast
    have "replay svc cs (upsert_store vs m) k = Some x"
      using Cons.prems c ok by simp
    from Cons.IH[OF this] show ?thesis
      using upsert_store_entry[of vs m k x] c by auto
  next
    case False
    then have "replay svc cs m k = Some x" using Cons.prems by (cases c) auto
    from Cons.IH[OF this] show ?thesis by auto
  qed
qed

lemma wait_until_ready_after:
  assumes "describe_index_ready svc (i + d) \<noteq> Inr False"
      and "\<And>j. j < d \<Longrightarrow> describe_index_ready svc (i + j) = Inr False"
  shows "\<exists>r. wait_until_ready svc i log = Some (r, log @ replicate (Suc d) (DescribeIndex INDEX_NAME))"
  using assms
proof (induction d arbitrary: i log)
  case 0
  then have "describe_index_ready svc i \<noteq> Inr False" by simp
  then show ?case
    by (subst wait_until_ready.simps) (auto split: sum.splits)
next
  case (Suc d)
  have first: "describe_index_ready svc i = Inr False" using Suc.prems(2)[of 0] by simp
  have "\<exists>r. wait_until_ready svc (Suc i) (log @ [DescribeIndex INDEX_NAME])
          = Some (r, (log @ [DescribeIndex INDEX_NAME]) @ replicate (Suc d) (DescribeIndex INDEX_NAME))"
  proof (rule Suc.IH)
    show "describe_index_ready svc (Suc i + d) \<noteq> Inr False" using Suc.prems(1) by simp
    fix j assume "j < d"
    then show "describe_index_ready svc (Suc i + j) = Inr False" using Suc.prems(2)[of "Suc j"] by simp
  qed
  then show ?case
    using first by (subst wait_until_ready.simps) (simp add: replicate_app_Cons_same)
qed

lemma wait_until_ready_returns:
  assumes "\<exists>n. describe_index_ready svc n \<noteq> Inr False"
  shows "\<exists>r k. wait_until_ready svc 0 log = Some (r, log @ replicate k (DescribeIndex INDEX_NAME))"
proof -
  define d where "d = (LEAST n. describe_index_ready svc n \<noteq> Inr False)"
  have a: "describe_index_ready svc (0 + d) \<noteq> Inr False"
    unfolding d_def using LeastI_ex[OF assms] by simp
  have b: "\<And>j. j < d \<Longrightarrow> describe_index_ready svc (0 + j) = Inr False"
    unfolding d_def using not_less_Least by fastforce
  from wait_until_ready_after[OF a b] show ?thesis by blast
qed

lemma setup_pinecone_index_returns:
  assumes "\<exists>n. describe_index_ready svc n \<noteq> Inr False"
  shows "\<exists>r pre. setup_pinecone_index svc log = Some (r, log @ pre) \<and> (\<forall>vs. Upsert vs \<notin> set pre)"
proof (cases "list_indexes svc")
  case (Inl e)
  then show ?thesis by (simp add: setup_pinecone_index_def)
next
  case (Inr index_names)
  show ?thesis
  proof (cases "INDEX_NAME \<in> set index_names")
    case True
    then show ?thesis using Inr by (simp add: setup_pinecone_index_def)
  next
    case False
    show ?thesis
    proof (cases "create_index svc INDEX_NAME")
      case (Inl e)
      then show ?thesis using False \<open>list_indexes svc = Inr index_names\<close>
        by (simp add: setup_pinecone_index_def)
    next
      case created: (Inr u)
      from wait_until_ready_returns[OF assms, of "log @ [ListIndexes, CreateIndex INDEX_NAME]"]
      obtain r k where
        "wait_until_ready svc 0 (log @ [ListIndexes, CreateIndex INDEX_NAME])
           = Some (r, (log @ [ListIndexes, CreateIndex INDEX_NAME]) @ replicate k (DescribeIndex INDEX_NAME))"
        by blast
      then have "setup_pinecone_index svc log
           = Some (r, log @ ([ListIndexes, CreateIndex INDEX_NAME] @ replicate k (DescribeIndex INDEX_NAME)))"
        using False created \<open>list_indexes svc = Inr index_names\<close>
        by (simp add: setup_pinecone_index_def)
      moreover have "\<forall>vs. Upsert vs \<notin> set ([ListIndexes, CreateIndex INDEX_NAME] @ replicate k (DescribeIndex INDEX_NAME))"
        by auto
      ultimately show ?thesis by blast
    qed
  qed
qed

lemma populate_index_returns:
  assumes "\<exists>n. describe_index_ready svc n \<noteq> Inr False"
  shows "\<exists>r pre post. populate_index svc documents [] = Some (r, pre @ post)
           \<and> (\<forall>vs. Upsert vs \<notin> set pre)
           \<and> (post = [] \<or> post = snd (populate_batches svc documents 0 []) @ [DescribeIndexStats])"
proof (cases "documents = []")
  case True
  then have "populate_index svc documents [] = Some (Inr (), [] @ [])"
    by (simp add: populate_index_def)
  then show ?thesis by (intro exI[of _ "Inr ()"] exI[of _ "[]"]) simp
next
  case False
  from setup_pinecone_index_returns[OF assms, of "[]"] obtain r pre where
      ready: "setup_pinecone_index svc [] = Some (r, pre)" and quiet: "\<forall>vs. Upsert vs \<notin> set pre"
    by auto
  show ?thesis
  proof (cases r)
    case (Inl e)
    then have "populate_index svc documents [] = Some (Inl e, pre @ [])"
      using False ready by (simp add: populate_index_def)
    then show ?thesis using quiet by blast
  next
    case (Inr u)
    obtain res where res: "populate_batches svc documents 0 pre
         = (Inr (), pre @ snd (populate_batches svc documents 0 []))"
      using populate_batches_ok[of svc documents 0 pre] populate_batches_log[of svc documents 0 pre]
      by (metis prod.collapse)
    have "populate_index svc documents []
            = Some (case describe_index_stats svc of Inl e \<Rightarrow> Inl e | Inr c \<Rightarrow> Inr (),
                    pre @ (snd (populate_batches svc documents 0 []) @ [DescribeIndexStats]))"
      using False ready Inr res
      by (simp add: populate_index_def bind_def called_def ret_def split: sum.splits)
    then show ?thesis using quiet by blast
  qed
qed

lemma written_ids:
  "{vec_id v |v vs. Upsert vs \<in> set (snd (populate_batches svc documents 0 [])) \<and> upsert svc vs = Inr () \<and> v \<in> set vs}
     \<subseteq> (\<lambda>n. ''doc_'' @ str_nat n) ` {..<length documents}"
proof
  fix k
  assume "k \<in> {vec_id v |v vs. Upsert vs \<in> set (snd (populate_batches svc documents 0 [])) \<and> upsert svc vs = Inr () \<and> v \<in> set vs}"
  then obtain v vs where k: "k = vec_id v"
      and mem: "Upsert vs \<in> set (snd (populate_batches svc documents 0 []))" and v: "v \<in> set vs"
    by blast
  obtain j where j: "j < length vs" "v = vs ! j" using v by (metis in_set_conv_nth)
  from upserted_batches_shape[OF mem] j obtain b where
      "10 * b + j < length documents" "vec_id v = ''doc_'' @ str_nat (10 * b + j)"
    by (auto simp: indexed_as_def)
  then show "k \<in> (\<lambda>n. ''doc_'' @ str_nat n) ` {..<length documents}"
    using k by blast
qed

lemma store_after_run:
  assumes embed: "\<And>texts. \<exists>es. embed_documents svc texts = Inr es \<and> length es = length texts"
      and accept: "\<And>vs. upsert svc vs = Inr ()"
      and n: "n < length documents"
  shows "\<exists>x. replay svc (snd (populate_batches svc documents 0 [])) store (''doc_'' @ str_nat n) = Some x
           \<and> indexed_as n (documents ! n) (''doc_'' @ str_nat n, snd x)"
proof -
  define L where "L = snd (populate_batches svc documents 0 [])"
  define k where "k = ''doc_'' @ str_nat n"
  define R where "R = replay svc L (Map.empty :: 'a store)"
  from every_offset_upserted[OF embed n] obtain vs where
      mem: "Upsert vs \<in> set L" and j: "n mod 10 < length vs"
      and ix: "indexed_as n (documents ! n) (vec_id (vs ! (n mod 10)), vec_metadata (vs ! (n mod 10)))"
    unfolding L_def by blast
  have "vec_id (vs ! (n mod 10)) = k" using ix by (simp add: indexed_as_def k_def)
  moreover have "vs ! (n mod 10) \<in> set vs" using j by simp
  ultimately have "k \<in> dom R"
    unfolding R_def dom_replay using mem accept by blast
  then obtain x where x: "R k = Some x" by blast
  have whole: "replay svc L store = store ++ R" unfolding R_def by (rule replay_add)
  have final: "replay svc L store k = Some x" unfolding whole using x by simp
  from replay_entry[of svc L Map.empty k x] x obtain vs' v where
      mem': "Upsert vs' \<in> set L" and v: "v \<in> set vs'" "vec_id v = k" "x = (vec_values v, vec_metadata v)"
    unfolding R_def by auto
  obtain j' where j': "j' < length vs'" "v = vs' ! j'" using v(1) by (metis in_set_conv_nth)
  from upserted_batches_shape[OF mem'[unfolded L_def]] j' obtain b where
      ix': "indexed_as (10 * b + j') (documents ! (10 * b + j')) (vec_id v, vec_metadata v)"
    by auto
  have "str_nat (10 * b + j') = str_nat n"
    using ix' v(2) by (simp add: indexed_as_def k_def)
  then have "10 * b + j' = n" by (rule str_nat_inj)
  then have "indexed_as n (documents ! n) (k, snd x)"
    using ix' v by simp
  then show ?thesis using final unfolding L_def k_def by blast
qed

lemma store_one_entry_per_offset:
  assumes embed: "\<And>texts. \<exists>es. embed_documents svc texts = Inr es \<and> length es = length texts"
      and accept: "\<And>vs. upsert svc vs = Inr ()"
  shows "card (dom (replay svc (snd (populate_batches svc documents 0 [])) Map.empty)) = length documents"
proof -
  define L where "L = snd (populate_batches svc documents 0 [])"
  have sub: "dom (replay svc L Map.empty) \<subseteq> (\<lambda>n. ''doc_'' @ str_nat n) ` {..<length documents}"
    unfolding dom_replay L_def using written_ids[of svc documents] by simp
  have sup: "(\<lambda>n. ''doc_'' @ str_nat n) ` {..<length documents} \<subseteq> dom (replay svc L Map.empty)"
  proof
    fix k assume "k \<in> (\<lambda>n. ''doc_'' @ str_nat n) ` {..<length documents}"
    then obtain n where "n < length documents" "k = ''doc_'' @ str_nat n" by auto
    then show "k \<in> dom (replay svc L Map.empty)"
      using store_after_run[OF embed accept, of n documents Map.empty] unfolding L_def by auto
  qed
  have "inj_on (\<lambda>n. ''doc_'' @ str_nat n) {..<length documents}"
  proof (rule inj_onI)
    fix a b assume "''doc_'' @ str_nat a = ''doc_'' @ str_nat b"
    then have "str_nat a = str_nat b" by simp
    then show "a = b" by (rule str_nat_inj)
  qed
  then have "card ((\<lambda>n. ''doc_'' @ str_nat n) ` {..<length documents}) = length documents"
    by (simp add: card_image)
  moreover have "dom (replay svc L Map.empty) = (\<lambda>n. ''doc_'' @ str_nat n) ` {..<length documents}"
    using sub sup by (rule subset_antisym)
  ultimately show ?thesis unfolding L_def by simp
qed

lemma batch_loop_upserts:
  "fst (populate_batches svc documents 0 []) = Inr ()
   \<and> (\<forall>vs. Upsert vs \<in> set (snd (populate_batches svc documents 0 [])) \<longrightarrow>
          length vs \<le> 10
          \<and> (\<exists>b. \<forall>j < length vs. 10 * b + j < length documents
                 \<and> indexed_as (10 * b + j) (documents ! (10 * b + j))
                      (vec_id (vs ! j), vec_metadata (vs ! j))))
   \<and> ((\<forall>texts. \<exists>es. embed_documents svc texts = Inr es \<and> length es = length texts)
        \<and> (\<forall>vs. upsert svc vs = Inr ()) \<longrightarrow>
          (\<forall>n < length documents.
             \<exists>x. replay svc (snd (populate_batches svc documents 0 [])) store (''doc_'' @ str_nat n) = Some x
                 \<and> indexed_as n (documents ! n) (''doc_'' @ str_nat n, snd x))
          \<and> card (dom (replay svc (snd (populate_batches svc documents 0 [])) Map.empty))
              = length documents)
   \<and> replay svc (snd (populate_batches svc documents 0 (snd (populate_batches svc documents 0 [])))) store
       = replay svc (snd (populate_batches svc documents 0 [])) store
   \<and> ((\<exists>n. describe_index_ready svc n \<noteq> Inr False) \<longrightarrow>
        (\<exists>r pre post. populate_index svc documents [] = Some (r, pre @ post)
           \<and> (\<forall>vs. Upsert vs \<notin> set pre)
           \<and> (post = [] \<or> post = snd (populate_batches svc documents 0 []) @ [DescribeIndexStats])))"
proof -
  have c1: "fst (populate_batches svc documents 0 []) = Inr ()"
    by (rule populate_batches_ok)
  have c2: "\<forall>vs. Upsert vs \<in> set (snd (populate_batches svc documents 0 [])) \<longrightarrow>
          length vs \<le> 10
          \<and> (\<exists>b. \<forall>j < length vs. 10 * b + j < length documents
                 \<and> indexed_as (10 * b + j) (documents ! (10 * b + j))
                      (vec_id (vs ! j), vec_metadata (vs ! j)))"
    by (intro allI impI) (rule upserted_batches_shape)
  have c3: "(\<forall>texts. \<exists>es. embed_documents svc texts = Inr es \<and> length es = length texts)
        \<and> (\<forall>vs. upsert svc vs = Inr ()) \<longrightarrow>
          (\<forall>n < length documents.
             \<exists>x. replay svc (snd (populate_batches svc documents 0 [])) store (''doc_'' @ str_nat n) = Some x
                 \<and> indexed_as n (documents ! n) (''doc_'' @ str_nat n, snd x))
          \<and> card (dom (replay svc (snd (populate_batches svc documents 0 [])) Map.empty))
              = length documents"
  proof (intro impI, elim conjE)
    assume embed: "\<forall>texts. \<exists>es. embed_documents svc texts = Inr es \<and> length es = length texts"
       and accept: "\<forall>vs. upsert svc vs = Inr ()"
    have e: "\<And>texts. \<exists>es. embed_documents svc texts = Inr es \<and> length es = length texts"
      using embed by blast
    have a: "\<And>vs. upsert svc vs = Inr ()" using accept by blast
    have "\<forall>n < length documents.
             \<exists>x. replay svc (snd (populate_batches svc documents 0 [])) store (''doc_'' @ str_nat n) = Some x
                 \<and> indexed_as n (documents ! n) (''doc_'' @ str_nat n, snd x)"
      by (intro allI impI) (rule store_after_run[OF e a])
    moreover have "card (dom (replay svc (snd (populate_batches svc documents 0 [])) Map.empty))
              = length documents"
      by (rule store_one_entry_per_offset[OF e a])
    ultimately show "(\<forall>n < length documents.
             \<exists>x. replay svc (snd (populate_batches svc documents 0 [])) store (''doc_'' @ str_nat n) = Some x
                 \<and> indexed_as n (documents ! n) (''doc_'' @ str_nat n, snd x))
          \<and> card (dom (replay svc (snd (populate_batches svc documents 0 [])) Map.empty))
              = length documents"
      by (rule conjI)
  qed
  have c4: "replay svc (snd (populate_batches svc documents 0 (snd (populate_batches svc documents 0 [])))) store
       = replay svc (snd (populate_batches svc documents 0 [])) store"
    by (subst populate_batches_log) (rule replay_twice)
  have c5: "(\<exists>n. describe_index_ready svc n \<noteq> Inr False) \<longrightarrow>
        (\<exists>r pre post. populate_index svc documents [] = Some (r, pre @ post)
           \<and> (\<forall>vs. Upsert vs \<notin> set pre)
           \<and> (post = [] \<or> post = snd (populate_batches svc documents 0 []) @ [DescribeIndexStats]))"
    by (intro impI) (rule populate_index_returns)
  show ?thesis
    by (intro conjI) (rule c1 c2 c3 c4 c5)+
qed

lemma wait_until_ready_log:
  assumes "wait_until_ready svc i log = Some y"
  shows "\<exists>k. snd y = log @ replicate (Suc k) (DescribeIndex INDEX_NAME)"
proof (rule wait_until_ready.raw_induct[where P = "\<lambda>svc i log y.
          \<exists>k. snd y = log @ replicate (Suc k) (DescribeIndex INDEX_NAME)", OF _ assms])
  fix wait :: "'a index_services \<Rightarrow> nat \<Rightarrow> 'a index_call list
                 \<Rightarrow> ((exn + unit) \<times> 'a index_call list) option"
  fix svc i log y
  assume IH: "\<And>i log b y. wait i log b = Some y \<Longrightarrow>
                 \<exists>k. snd y = b @ replicate (Suc k) (DescribeIndex INDEX_NAME)"
     and step: "(case describe_index_ready svc i of
                   Inl e \<Rightarrow> Some (Inl e, log @ [DescribeIndex INDEX_NAME])
                 | Inr ready \<Rightarrow>
                     if ready then Some (Inr (), log @ [DescribeIndex INDEX_NAME])
                     else wait svc (Suc i) (log @ [DescribeIndex INDEX_NAME])) = Some y"
  show "\<exists>k. snd y = log @ replicate (Suc k) (DescribeIndex INDEX_NAME)"
  proof (cases "describe_index_ready svc i")
    case (Inl e)
    then have "snd y = log @ replicate (Suc 0) (DescribeIndex INDEX_NAME)" using step by auto
    then show ?thesis by blast
  next
    case (Inr ready)
    show ?thesis
    proof (cases ready)
      case True
      then have "snd y = log @ replicate (Suc 0) (DescribeIndex INDEX_NAME)" using step Inr by auto
      then show ?thesis by blast
    next
      case False
      then have "wait svc (Suc i) (log @ [DescribeIndex INDEX_NAME]) = Some y"
        using step Inr by simp
      then obtain k where
        "snd y = (log @ [DescribeIndex INDEX_NAME]) @ replicate (Suc k) (DescribeIndex INDEX_NAME)"
        using IH by blast
      then have "snd y = log @ replicate (Suc (Suc k)) (DescribeIndex INDEX_NAME)"
        by (simp add: replicate_app_Cons_same)
      then show ?thesis by blast
    qed
  qed
qed

lemma setup_pinecone_index_log:
  assumes "setup_pinecone_index svc log = Some (r, pre)"
  shows "\<exists>ext. pre = log @ ext
           \<and> set ext \<subseteq> {ListIndexes, CreateIndex INDEX_NAME, DescribeIndex INDEX_NAME}"
proof (cases "list_indexes svc")
  case (Inl e)
  then have "pre = log @ [ListIndexes]" using assms by (simp add: setup_pinecone_index_def)
  then show ?thesis by auto
next
  case (Inr index_names)
  show ?thesis
  proof (cases "INDEX_NAME \<in> set index_names")
    case True
    then have "pre = log @ [ListIndexes]" using assms Inr by (simp add: setup_pinecone_index_def)
    then show ?thesis by auto
  next
    case False
    show ?thesis
    proof (cases "create_index svc INDEX_NAME")
      case (Inl e)
      then have "pre = log @ [ListIndexes, CreateIndex INDEX_NAME]"
        using assms False \<open>list_indexes svc = Inr index_names\<close>
        by (simp add: setup_pinecone_index_def)
      then show ?thesis by auto
    next
      case created: (Inr u)
      have "wait_until_ready svc 0 (log @ [ListIndexes, CreateIndex INDEX_NAME]) = Some (r, pre)"
        using assms False created \<open>list_indexes svc = Inr index_names\<close>
        by (simp add: setup_pinecone_index_def)
      from wait_until_ready_log[OF this] obtain k where
        "pre = (log @ [ListIndexes, CreateIndex INDEX_NAME]) @ replicate (Suc k) (DescribeIndex INDEX_NAME)"
        by auto
      then have "pre = log @ ([ListIndexes, CreateIndex INDEX_NAME] @ replicate (Suc k) (DescribeIndex INDEX_NAME))"
        by simp
      moreover have "set ([ListIndexes, CreateIndex INDEX_NAME] @ replicate (Suc k) (DescribeIndex INDEX_NAME))
          \<subseteq> {ListIndexes, CreateIndex INDEX_NAME, DescribeIndex INDEX_NAME :: 'a index_call}"
        by auto
      ultimately show ?thesis by blast
    qed
  qed
qed

lemma populate_batches_events:
  "c \<in> set (snd (populate_batches svc documents i [])) \<Longrightarrow>
     (\<exists>texts. c = EmbedDocuments texts) \<or> (\<exists>vs. c = Upsert vs)"
proof (induction svc documents i rule: populate_batches.induct)
  case (1 svc documents i)
  show ?case
  proof (cases "i < length documents")
    case False
    then show ?thesis using "1.prems" by (simp add: populate_batches_done)
  next
    case True
    from "1.prems" consider
        (here) "c \<in> set (snd (process_batch svc documents i []))"
      | (later) "c \<in> set (snd (populate_batches svc documents (i + batch_size) []))"
      by (auto simp: populate_batches_step[OF True])
    then show ?thesis
    proof cases
      case here
      then show ?thesis by (auto simp: process_batch_result Let_def split: sum.splits)
    next
      case later
      then show ?thesis by (rule "1.IH"[OF True])
    qed
  qed
qed

lemma populate_index_result:
  "populate_index svc documents log =
     (if documents = [] then Some (Inr (), log)
      else
        (case setup_pinecone_index svc log of
           None \<Rightarrow> None
         | Some (Inl e, pre) \<Rightarrow> Some (Inl e, pre)
         | Some (Inr u, pre) \<Rightarrow>
             Some (case describe_index_stats svc of Inl e \<Rightarrow> Inl e | Inr vector_count \<Rightarrow> Inr (),
                   pre @ snd (populate_batches svc documents 0 []) @ [DescribeIndexStats])))"
proof -
  define L where "L = snd (populate_batches svc documents 0 [])"
  have run: "\<And>pre. populate_batches svc documents 0 pre = (Inr (), pre @ L)"
    unfolding L_def
    using populate_batches_ok[of svc documents 0] populate_batches_log[of svc documents 0]
    by (metis prod.collapse)
  have "populate_index svc documents log =
     (if documents = [] then Some (Inr (), log)
      else
        (case setup_pinecone_index svc log of
           None \<Rightarrow> None
         | Some (Inl e, pre) \<Rightarrow> Some (Inl e, pre)
         | Some (Inr u, pre) \<Rightarrow>
             Some (case describe_index_stats svc of Inl e \<Rightarrow> Inl e | Inr vector_count \<Rightarrow> Inr (),
                   pre @ L @ [DescribeIndexStats])))"
  proof (cases "documents = []")
    case True
    then show ?thesis by (simp add: populate_index_def)
  next
    case False
    show ?thesis
    proof (cases "setup_pinecone_index svc log")
      case None
      then show ?thesis using False by (simp add: populate_index_def)
    next
      case (Some res)
      obtain r0 pre where res: "res = (r0, pre)" by (cases res)
      show ?thesis
      proof (cases r0)
        case (Inl e)
        then show ?thesis using False Some res by (simp add: populate_index_def)
      next
        case (Inr u)
        show ?thesis
        proof (cases "describe_index_stats svc")
          case stats: (Inl e)
          then show ?thesis using False Some res Inr
            by (simp add: populate_index_def bind_def called_def ret_def run)
        next
          case stats: (Inr n)
          then show ?thesis using False Some res Inr
            by (simp add: populate_index_def bind_def called_def ret_def run)
        qed
      qed
    qed
  qed
  then show ?thesis unfolding L_def .
qed

lemma populate_index_log:
  assumes "populate_index svc documents log = Some (r, log')"
  shows "\<exists>ext. log' = log @ ext
           \<and> (\<forall>c \<in> set ext. (\<forall>u. c \<noteq> CrawlFirecrawl u) \<and> (\<forall>us. c \<noteq> CrawlFallback us))"
proof (cases "documents = []")
  case True
  then have "log' = log @ []" using assms by (simp add: populate_index_result)
  then show ?thesis by (intro exI[of _ "[]"]) simp
next
  case False
  then obtain r0 pre where s: "setup_pinecone_index svc log = Some (r0, pre)"
    using assms by (auto simp: populate_index_result split: option.splits)
  from setup_pinecone_index_log[OF s] obtain ext where
      ext: "pre = log @ ext" "set ext \<subseteq> {ListIndexes, CreateIndex INDEX_NAME, DescribeIndex INDEX_NAME}"
    by blast
  have quiet: "\<forall>c \<in> set ext. (\<forall>u. c \<noteq> CrawlFirecrawl u) \<and> (\<forall>us. c \<noteq> CrawlFallback us)"
    using ext(2) by auto
  show ?thesis
  proof (cases r0)
    case (Inl e)
    then have "log' = log @ ext" using assms False s ext by (simp add: populate_index_result)
    then show ?thesis using quiet by blast
  next
    case (Inr u)
    then have "log' = log @ (ext @ snd (populate_batches svc documents 0 []) @ [DescribeIndexStats])"
      using assms False s ext by (simp add: populate_index_result)
    moreover have "\<forall>c \<in> set (ext @ snd (populate_batches svc documents 0 []) @ [DescribeIndexStats]).
        (\<forall>u. c \<noteq> CrawlFirecrawl u) \<and> (\<forall>us. c \<noteq> CrawlFallback us)"
      using quiet populate_batches_events[of _ svc documents 0] by auto
    ultimately show ?thesis by blast
  qed
qed

lemma main_result:
  assumes "env_cohere_api_key svc" "env_pinecone_api_key svc" "crawler_init svc = Inr ()"
  shows "main svc log =
     (let primary = crawl_with_firecrawl svc ''https://inference-docs.cerebras.ai/'' in
      if length primary < 5 then
        (if primary @ crawl_fallback svc fallback_urls = []
         then Some (Inr (), log @ [CrawlFirecrawl ''https://inference-docs.cerebras.ai/'',
                                   CrawlFallback fallback_urls])
         else populate_index svc (chunk_documents svc (primary @ crawl_fallback svc fallback_urls))
                (log @ [CrawlFirecrawl ''https://inference-docs.cerebras.ai/'',
                        CrawlFallback fallback_urls]))
      else populate_index svc (chunk_documents svc primary)
             (log @ [CrawlFirecrawl ''https://inference-docs.cerebras.ai/'']))"
  using assms by (auto simp: main_def crawl_all_result Let_def)

lemma main_fallback_iff:
  assumes "env_cohere_api_key svc" "env_pinecone_api_key svc" "crawler_init svc = Inr ()"
      and "main svc [] = Some (r, log')"
  shows "CrawlFallback fallback_urls \<in> set log'
           \<longleftrightarrow> length (crawl_with_firecrawl svc ''https://inference-docs.cerebras.ai/'') < 5"
proof -
  let ?primary = "crawl_with_firecrawl svc ''https://inference-docs.cerebras.ai/''"
  let ?url = "''https://inference-docs.cerebras.ai/''"
  show ?thesis
  proof (cases "length ?primary < 5")
    case True
    show ?thesis
    proof (cases "?primary @ crawl_fallback svc fallback_urls = []")
      case e: True
      have "log' = [] @ [CrawlFirecrawl ?url, CrawlFallback fallback_urls]"
        using assms(4) True e unfolding main_result[OF assms(1-3)]
        by (auto simp: Let_def split: if_splits)
      then show ?thesis using True by simp
    next
      case e: False
      have "populate_index svc (chunk_documents svc (?primary @ crawl_fallback svc fallback_urls))
              ([] @ [CrawlFirecrawl ?url, CrawlFallback fallback_urls]) = Some (r, log')"
        using assms(4) True e unfolding main_result[OF assms(1-3)]
        by (auto simp: Let_def split: if_splits)
      from populate_index_log[OF this] show ?thesis using True by auto
    qed
  next
    case False
    have "populate_index svc (chunk_documents svc ?primary) ([] @ [CrawlFirecrawl ?url]) = Some (r, log')"
      using assms(4) False unfolding main_result[OF assms(1-3)] by (simp add: Let_def)
    from populate_index_log[OF this] obtain ext where
      "log' = [CrawlFirecrawl ?url] @ ext" "\<forall>c \<in> set ext. \<forall>us. c \<noteq> CrawlFallback us"
      by auto
    then show ?thesis using False by auto
  qed
qed

lemma replay_quiet: "\<forall>vs. Upsert vs \<notin> set l \<Longrightarrow> replay svc l m = m"
proof (induction l)
  case Nil
  show ?case by simp
next
  case (Cons c cs)
  then show ?case by (cases c) auto
qed

lemma setup_quiet:
  assumes "setup_pinecone_index svc [] = Some (r, pre)"
  shows "\<forall>vs. Upsert vs \<notin> set pre"
  using setup_pinecone_index_log[OF assms] by auto

lemma populate_index_upserts:
  assumes "populate_index svc documents [] = Some (r, log')" and "Upsert vs \<in> set log'"
  shows "Upsert vs \<in> set (snd (populate_batches svc documents 0 []))"
proof (cases "documents = []")
  case True
  then show ?thesis using assms by (simp add: populate_index_result)
next
  case False
  then obtain r0 pre where s: "setup_pinecone_index svc [] = Some (r0, pre)"
    using assms(1) by (auto simp: populate_index_result split: option.splits)
  note q = setup_quiet[OF s]
  show ?thesis
  proof (cases r0)
    case (Inl e)
    then have "log' = pre" using assms(1) False s by (simp add: populate_index_result)
    then show ?thesis using q assms(2) by simp
  next
    case (Inr u)
    then have "log' = pre @ snd (populate_batches svc documents 0 []) @ [DescribeIndexStats]"
      using assms(1) False s by (simp add: populate_index_result)
    then show ?thesis using q assms(2) by auto
  qed
qed

lemma populate_index_store:
  assumes "setup_pinecone_index svc [] = Some (Inr (), pre)" and "documents \<noteq> []"
  shows "\<exists>r log'. populate_index svc documents [] = Some (r, log')
           \<and> replay svc log' = replay svc (snd (populate_batches svc documents 0 []))"
proof -
  define L where "L = snd (populate_batches svc documents 0 [])"
  have "populate_index svc documents [] =
          Some (case describe_index_stats svc of Inl e \<Rightarrow> Inl e | Inr vector_count \<Rightarrow> Inr (),
                pre @ L @ [DescribeIndexStats])"
    using assms by (simp add: populate_index_result L_def)
  moreover have "replay svc (pre @ L @ [DescribeIndexStats]) = replay svc L"
  proof
    fix m
    have "replay svc (pre @ L @ [DescribeIndexStats]) m
            = replay svc [DescribeIndexStats] (replay svc L (replay svc pre m))"
      by (simp add: replay_append)
    also have "\<dots> = replay svc L m"
      using replay_quiet[OF setup_quiet[OF assms(1)], of svc m] by simp
    finally show "replay svc (pre @ L @ [DescribeIndexStats]) m = replay svc L m" .
  qed
  ultimately show ?thesis unfolding L_def by blast
qed

text \<open>
  Claim C8. With both keys set and the crawler built, \<^verbatim>\<open>main\<close> calls the primary crawl,
  calls the fallback crawl exactly when the primary crawl returned fewer than 5 documents,
  and then either returns at once, when the two crawls together gave no document, or hands
  the chunked documents to \<^verbatim>\<open>populate_index\<close>. So whenever \<^verbatim>\<open>main\<close> returns, the fallback
  call is in its log exactly in the first case; and when both crawls return no document
  the log of \<^verbatim>\<open>main\<close> holds the two crawl calls and nothing else: no index is listed,
  created or written.
\<close>

theorem main_crawl_policy:
  "(env_cohere_api_key svc \<and> env_pinecone_api_key svc \<and> crawler_init svc = Inr () \<longrightarrow>
      main svc log =
        (let primary = crawl_with_firecrawl svc ''https://inference-docs.cerebras.ai/'' in
         if length primary < 5 then
           (if primary @ crawl_fallback svc fallback_urls = []
            then Some (Inr (), log @ [CrawlFirecrawl ''https://inference-docs.cerebras.ai/'',
                                      CrawlFallback fallback_urls])
            else populate_index svc (chunk_documents svc (primary @ crawl_fallback svc fallback_urls))
                   (log @ [CrawlFirecrawl ''https://inference-docs.cerebras.ai/'',
                           CrawlFallback fallback_urls]))
         else populate_index svc (chunk_documents svc primary)
                (log @ [CrawlFirecrawl ''https://inference-docs.cerebras.ai/'']))
      \<and> (\<forall>r log'. main svc [] = Some (r, log') \<longrightarrow>
            (CrawlFallback fallback_urls \<in> set log'
               \<longleftrightarrow> length (crawl_with_firecrawl svc ''https://inference-docs.cerebras.ai/'') < 5)))
   \<and> (CrawlFallback fallback_urls \<in> set (snd (crawl_all svc []))
      \<longleftrightarrow> length (crawl_with_firecrawl svc ''https://inference-docs.cerebras.ai/'') < 5)
   \<and> (env_cohere_api_key svc \<and> env_pinecone_api_key svc \<and> crawler_init svc = Inr ()
        \<and> crawl_with_firecrawl svc ''https://inference-docs.cerebras.ai/'' = []
        \<and> crawl_fallback svc fallback_urls = []
      \<longrightarrow> main svc [] =
            Some (Inr (), [CrawlFirecrawl ''https://inference-docs.cerebras.ai/'',
                           CrawlFallback fallback_urls]))"
proof -
  have a: "env_cohere_api_key svc \<and> env_pinecone_api_key svc \<and> crawler_init svc = Inr () \<longrightarrow>
      main svc log =
        (let primary = crawl_with_firecrawl svc ''https://inference-docs.cerebras.ai/'' in
         if length primary < 5 then
           (if primary @ crawl_fallback svc fallback_urls = []
            then Some (Inr (), log @ [CrawlFirecrawl ''https://inference-docs.cerebras.ai/'',
                                      CrawlFallback fallback_urls])
            else populate_index svc (chunk_documents svc (primary @ crawl_fallback svc fallback_urls))
                   (log @ [CrawlFirecrawl ''https://inference-docs.cerebras.ai/'',
                           CrawlFallback fallback_urls]))
         else populate_index svc (chunk_documents svc primary)
                (log @ [CrawlFirecrawl ''https://inference-docs.cerebras.ai/'']))"
    using main_result[of svc log] by blast
  have b: "env_cohere_api_key svc \<and> env_pinecone_api_key svc \<and> crawler_init svc = Inr () \<longrightarrow>
      (\<forall>r log'. main svc [] = Some (r, log') \<longrightarrow>
            (CrawlFallback fallback_urls \<in> set log'
               \<longleftrightarrow> length (crawl_with_firecrawl svc ''https://inference-docs.cerebras.ai/'') < 5))"
    using main_fallback_iff[of svc] by blast
  have c: "CrawlFallback fallback_urls \<in> set (snd (crawl_all svc []))
      \<longleftrightarrow> length (crawl_with_firecrawl svc ''https://inference-docs.cerebras.ai/'') < 5"
    by (simp add: crawl_all_result Let_def)
  have d: "env_cohere_api_key svc \<and> env_pinecone_api_key svc \<and> crawler_init svc = Inr ()
        \<and> crawl_with_firecrawl svc ''https://inference-docs.cerebras.ai/'' = []
        \<and> crawl_fallback svc fallback_urls = []
      \<longrightarrow> main svc [] =
            Some (Inr (), [CrawlFirecrawl ''https://inference-docs.cerebras.ai/'',
                           CrawlFallback fallback_urls])"
    by (auto simp: crawl_all_result main_def Let_def)
  show ?thesis using a b c d by blast
qed

theorem main_crawl_policy_witness:
  "main (example_index_services [] []) [] =
        Some (Inr (), [CrawlFirecrawl ''https://inference-docs.cerebras.ai/'', CrawlFallback fallback_urls])
   \<and> main (example_index_services [doc_intro] [doc_quickstart]) [] =
        populate_index (example_index_services [doc_intro] [doc_quickstart])
          (chunk_documents (example_index_services [doc_intro] [doc_quickstart]) [doc_intro, doc_quickstart])
          [CrawlFirecrawl ''https://inference-docs.cerebras.ai/'', CrawlFallback fallback_urls]
   \<and> main (example_index_services six_documents [doc_intro]) [] =
        populate_index (example_index_services six_documents [doc_intro])
          (chunk_documents (example_index_services six_documents [doc_intro]) six_documents)
          [CrawlFirecrawl ''https://inference-docs.cerebras.ai/'']
   \<and> (\<exists>r log'. main (example_index_services six_documents [doc_intro]) [] = Some (r, log')
         \<and> CrawlFallback fallback_urls \<notin> set log')"
proof -
  let ?none = "example_index_services [] [] :: nat index_services"
  let ?few = "example_index_services [doc_intro] [doc_quickstart] :: nat index_services"
  let ?many = "example_index_services six_documents [doc_intro] :: nat index_services"
  have k1: "env_cohere_api_key ?none \<and> env_pinecone_api_key ?none \<and> crawler_init ?none = Inr ()"
    and k2: "env_cohere_api_key ?few \<and> env_pinecone_api_key ?few \<and> crawler_init ?few = Inr ()"
    and k3: "env_cohere_api_key ?many \<and> env_pinecone_api_key ?many \<and> crawler_init ?many = Inr ()"
    by (simp_all add: example_index_services_def)
  have c1: "crawl_with_firecrawl ?none ''https://inference-docs.cerebras.ai/'' = []
            \<and> crawl_fallback ?none fallback_urls = []"
    by (simp add: example_index_services_def)
  have a: "main ?none [] =
        Some (Inr (), [CrawlFirecrawl ''https://inference-docs.cerebras.ai/'', CrawlFallback fallback_urls])"
    using main_crawl_policy[of ?none "[]"] k1 c1 by blast
  have b: "main ?few [] =
        populate_index ?few (chunk_documents ?few [doc_intro, doc_quickstart])
          [CrawlFirecrawl ''https://inference-docs.cerebras.ai/'', CrawlFallback fallback_urls]"
  proof -
    have "crawl_with_firecrawl ?few ''https://inference-docs.cerebras.ai/'' = [doc_intro]"
         "crawl_fallback ?few fallback_urls = [doc_quickstart]"
      by (simp_all add: example_index_services_def)
    then show ?thesis using main_crawl_policy[of ?few "[]"] k2 by (simp add: Let_def)
  qed
  have c: "main ?many [] =
        populate_index ?many (chunk_documents ?many six_documents)
          [CrawlFirecrawl ''https://inference-docs.cerebras.ai/'']"
  proof -
    have "crawl_with_firecrawl ?many ''https://inference-docs.cerebras.ai/'' = six_documents"
         "length six_documents = 6"
      by (simp_all add: example_index_services_def six_documents_def)
    then show ?thesis using main_crawl_policy[of ?many "[]"] k3 by (simp add: Let_def)
  qed
  have "\<exists>n. describe_index_ready ?many n \<noteq> Inr False"
    by (rule exI[of _ 2]) (simp add: example_index_services_def)
  from setup_pinecone_index_returns[OF this, of "[CrawlFirecrawl ''https://inference-docs.cerebras.ai/'']"]
  obtain r0 pre where "setup_pinecone_index ?many [CrawlFirecrawl ''https://inference-docs.cerebras.ai/'']
        = Some (r0, [CrawlFirecrawl ''https://inference-docs.cerebras.ai/''] @ pre)"
    by blast
  then have "\<exists>r log'. populate_index ?many (chunk_documents ?many six_documents)
          [CrawlFirecrawl ''https://inference-docs.cerebras.ai/''] = Some (r, log')"
    by (cases r0) (simp_all add: populate_index_result)
  then obtain r log' where ret: "main ?many [] = Some (r, log')" using c by auto
  have "length (crawl_with_firecrawl ?many ''https://inference-docs.cerebras.ai/'') = 6"
    by (simp add: example_index_services_def six_documents_def)
  then have "CrawlFallback fallback_urls \<notin> set log'"
    using main_crawl_policy[of ?many "[]"] k3 ret by simp
  then show ?thesis using a b c ret by blast
qed

lemma example_setup:
  "setup_pinecone_index (example_index_services p f) [] =
     Some (Inr (), [ListIndexes, CreateIndex INDEX_NAME, DescribeIndex INDEX_NAME,
                    DescribeIndex INDEX_NAME, DescribeIndex INDEX_NAME])"
  by (simp add: setup_pinecone_index_def example_index_services_def wait_until_ready.simps)

lemma example_batches:
  "snd (populate_batches (example_index_services p f) [doc_long, doc_quickstart] 0 []) =
     [EmbedDocuments [replicate 1200 (CHR ''x''), ''Install the SDK and set the API key.''],
      Upsert [\<lparr>vec_id = ''doc_0'', vec_values = 1200,
               vec_metadata = \<lparr>vm_text = replicate 1000 (CHR ''x''),
                                vm_title = replicate 100 (CHR ''t''),
                                vm_source = replicate 200 (CHR ''s''),
                                vm_section = [], vm_content_type = [], vm_chunk_index = 0\<rparr>\<rparr>,
              \<lparr>vec_id = ''doc_1'', vec_values = 36,
               vec_metadata = \<lparr>vm_text = ''Install the SDK and set the API key.'',
                                vm_title = [],
                                vm_source = ''https://inference-docs.cerebras.ai/quickstart'',
                                vm_section = ''Documentation'', vm_content_type = ''api'',
                                vm_chunk_index = 1\<rparr>\<rparr>]]"
proof -
  have ids: "str_nat 0 = ''0''" "str_nat (Suc 0) = ''1''" by code_simp+
  show ?thesis
    by (simp add: populate_batches_unfold process_batch_result batch_size_def batch_vectors_def
          vector_of_def example_index_services_def doc_long_def doc_quickstart_def ids Let_def)
qed

text \<open>
  Claim C9. \<^verbatim>\<open>populate_index\<close> returns at once for an empty list; otherwise it sets the
  index up and, if that succeeds, its log is the setup calls, the calls of the batch loop
  and the final count. Every upsert in its log holds at most 10 vectors, those of the
  documents at offsets \<open>10 b\<close>, \<open>10 b + 1\<close>, ... for some \<open>b\<close>: the vector of the
  document at offset \<open>n\<close> has the id \<^verbatim>\<open>doc_n\<close> and the metadata text, title and source
  cut to 1000, 100 and 200 characters. When Cohere returns one embedding for each text and
  Pinecone accepts the upserts, the store after the run holds under \<^verbatim>\<open>doc_n\<close> the
  metadata of the document at offset \<open>n\<close>, for every offset, and an empty store ends with
  exactly one entry for each document. The batch loop raises nothing, and a second run of
  it over the same list leaves the store as the first run left it.
\<close>

theorem populate_index_batches:
  "populate_index svc documents log =
     (if documents = [] then Some (Inr (), log)
      else
        (case setup_pinecone_index svc log of
           None \<Rightarrow> None
         | Some (Inl e, pre) \<Rightarrow> Some (Inl e, pre)
         | Some (Inr u, pre) \<Rightarrow>
             Some (case describe_index_stats svc of Inl e \<Rightarrow> Inl e | Inr vector_count \<Rightarrow> Inr (),
                   pre @ snd (populate_batches svc documents 0 []) @ [DescribeIndexStats])))
   \<and> (\<forall>r log' vs. populate_index svc documents [] = Some (r, log') \<and> Upsert vs \<in> set log' \<longrightarrow>
          length vs \<le> 10
          \<and> (\<exists>b. \<forall>j < length vs. 10 * b + j < length documents
                 \<and> indexed_as (10 * b + j) (documents ! (10 * b + j))
                      (vec_id (vs ! j), vec_metadata (vs ! j))))
   \<and> ((\<forall>texts. \<exists>es. embed_documents svc texts = Inr es \<and> length es = length texts)
        \<and> (\<forall>vs. upsert svc vs = Inr ())
        \<and> documents \<noteq> [] \<and> (\<exists>pre. setup_pinecone_index svc [] = Some (Inr (), pre)) \<longrightarrow>
          (\<exists>r log'. populate_index svc documents [] = Some (r, log')
             \<and> (\<forall>n < length documents.
                   \<exists>x. replay svc log' store (''doc_'' @ str_nat n) = Some x
                       \<and> indexed_as n (documents ! n) (''doc_'' @ str_nat n, snd x))
             \<and> card (dom (replay svc log' Map.empty)) = length documents))
   \<and> fst (populate_batches svc documents 0 []) = Inr ()
   \<and> (\<forall>vs. Upsert vs \<in> set (snd (populate_batches svc documents 0 [])) \<longrightarrow>
          length vs \<le> 10
          \<and> (\<exists>b. \<forall>j < length vs. 10 * b + j < length documents
                 \<and> indexed_as (10 * b + j) (documents ! (10 * b + j))
                      (vec_id (vs ! j), vec_metadata (vs ! j))))
   \<and> ((\<forall>texts. \<exists>es. embed_documents svc texts = Inr es \<and> length es = length texts)
        \<and> (\<forall>vs. upsert svc vs = Inr ()) \<longrightarrow>
          (\<forall>n < length documents.
             \<exists>x. replay svc (snd (populate_batches svc documents 0 [])) store (''doc_'' @ str_nat n) = Some x
                 \<and> indexed_as n (documents ! n) (''doc_'' @ str_nat n, snd x))
          \<and> card (dom (replay svc (snd (populate_batches svc documents 0 [])) Map.empty))
              = length documents)
   \<and> replay svc (snd (populate_batches svc documents 0 (snd (populate_batches svc documents 0 [])))) store
       = replay svc (snd (populate_batches svc documents 0 [])) store
   \<and> ((\<exists>n. describe_index_ready svc n \<noteq> Inr False) \<longrightarrow>
        (\<exists>r pre post. populate_index svc documents [] = Some (r, pre @ post)
           \<and> (\<forall>vs. Upsert vs \<notin> set pre)
           \<and> (post = [] \<or> post = snd (populate_batches svc documents 0 []) @ [DescribeIndexStats])))"
proof -
  have f: "populate_index svc documents log =
     (if documents = [] then Some (Inr (), log)
      else
        (case setup_pinecone_index svc log of
           None \<Rightarrow> None
         | Some (Inl e, pre) \<Rightarrow> Some (Inl e, pre)
         | Some (Inr u, pre) \<Rightarrow>
             Some (case describe_index_stats svc of Inl e \<Rightarrow> Inl e | Inr vector_count \<Rightarrow> Inr (),
                   pre @ snd (populate_batches svc documents 0 []) @ [DescribeIndexStats])))"
    by (rule populate_index_result)
  have g: "\<forall>r log' vs. populate_index svc documents [] = Some (r, log') \<and> Upsert vs \<in> set log' \<longrightarrow>
          length vs \<le> 10
          \<and> (\<exists>b. \<forall>j < length vs. 10 * b + j < length documents
                 \<and> indexed_as (10 * b + j) (documents ! (10 * b + j))
                      (vec_id (vs ! j), vec_metadata (vs ! j)))"
  proof (intro allI impI, elim conjE)
    fix r log' vs
    assume "populate_index svc documents [] = Some (r, log')" "Upsert vs \<in> set log'"
    then have "Upsert vs \<in> set (snd (populate_batches svc documents 0 []))"
      by (rule populate_index_upserts)
    then show "length vs \<le> 10
          \<and> (\<exists>b. \<forall>j < length vs. 10 * b + j < length documents
                 \<and> indexed_as (10 * b + j) (documents ! (10 * b + j))
                      (vec_id (vs ! j), vec_metadata (vs ! j)))"
      by (rule upserted_batches_shape)
  qed
  have h: "(\<forall>texts. \<exists>es. embed_documents svc texts = Inr es \<and> length es = length texts)
        \<and> (\<forall>vs. upsert svc vs = Inr ())
        \<and> documents \<noteq> [] \<and> (\<exists>pre. setup_pinecone_index svc [] = Some (Inr (), pre)) \<longrightarrow>
          (\<exists>r log'. populate_index svc documents [] = Some (r, log')
             \<and> (\<forall>n < length documents.
                   \<exists>x. replay svc log' store (''doc_'' @ str_nat n) = Some x
                       \<and> indexed_as n (documents ! n) (''doc_'' @ str_nat n, snd x))
             \<and> card (dom (replay svc log' Map.empty)) = length documents)"
  proof (intro impI, elim conjE exE)
    fix pre
    assume embed: "\<forall>texts. \<exists>es. embed_documents svc texts = Inr es \<and> length es = length texts"
       and accept: "\<forall>vs. upsert svc vs = Inr ()"
       and ne: "documents \<noteq> []"
       and ready: "setup_pinecone_index svc [] = Some (Inr (), pre)"
    have e: "\<And>texts. \<exists>es. embed_documents svc texts = Inr es \<and> length es = length texts"
      using embed by blast
    have a: "\<And>vs. upsert svc vs = Inr ()" using accept by blast
    from populate_index_store[OF ready ne] obtain r log' where
        ret: "populate_index svc documents [] = Some (r, log')"
        and same: "replay svc log' = replay svc (snd (populate_batches svc documents 0 []))"
      by blast
    have "\<forall>n < length documents.
             \<exists>x. replay svc log' store (''doc_'' @ str_nat n) = Some x
                 \<and> indexed_as n (documents ! n) (''doc_'' @ str_nat n, snd x)"
      unfolding same by (intro allI impI) (rule store_after_run[OF e a])
    moreover have "card (dom (replay svc log' Map.empty)) = length documents"
      unfolding same by (rule store_one_entry_per_offset[OF e a])
    ultimately show "\<exists>r log'. populate_index svc documents [] = Some (r, log')
             \<and> (\<forall>n < length documents.
                   \<exists>x. replay svc log' store (''doc_'' @ str_nat n) = Some x
                       \<and> indexed_as n (documents ! n) (''doc_'' @ str_nat n, snd x))
             \<and> card (dom (replay svc log' Map.empty)) = length documents"
      using ret by blast
  qed
  note old = batch_loop_upserts[of svc documents store]
  show ?thesis
    apply (intro conjI)
    apply (rule f)
    apply (rule g)
    apply (rule h)
    using old apply blast
    using old apply blast
    using old apply blast
    using old apply blast
    using old apply blast
    done
qed

theorem populate_index_batches_witness:
  "populate_index (example_index_services [] []) [doc_long, doc_quickstart] [] =
     Some (Inr (),
       [ListIndexes, CreateIndex INDEX_NAME, DescribeIndex INDEX_NAME,
        DescribeIndex INDEX_NAME, DescribeIndex INDEX_NAME,
        EmbedDocuments [replicate 1200 (CHR ''x''), ''Install the SDK and set the API key.''],
        Upsert [\<lparr>vec_id = ''doc_0'', vec_values = 1200,
                 vec_metadata = \<lparr>vm_text = replicate 1000 (CHR ''x''),
                                  vm_title = replicate 100 (CHR ''t''),
                                  vm_source = replicate 200 (CHR ''s''),
                                  vm_section = [], vm_content_type = [], vm_chunk_index = 0\<rparr>\<rparr>,
                \<lparr>vec_id = ''doc_1'', vec_values = 36,
                 vec_metadata = \<lparr>vm_text = ''Install the SDK and set the API key.'',
                                  vm_title = [],
                                  vm_source = ''https://inference-docs.cerebras.ai/quickstart'',
                                  vm_section = ''Documentation'', vm_content_type = ''api'',
                                  vm_chunk_index = 1\<rparr>\<rparr>],
        DescribeIndexStats])
   \<and> (\<exists>r log'. populate_index (example_index_services [] []) (six_documents @ six_documents) []
                     = Some (r, log')
         \<and> (\<exists>x. replay (example_index_services [] []) log' Map.empty ''doc_11'' = Some x
                \<and> vm_text (snd x) = ''Install the SDK and set the API key.''
                \<and> vm_title (snd x) = []
                \<and> vm_source (snd x) = ''https://inference-docs.cerebras.ai/quickstart'')
         \<and> card (dom (replay (example_index_services [] []) log' Map.empty)) = 12)"
proof -
  let ?svc = "example_index_services [] [] :: nat index_services"
  let ?docs = "six_documents @ six_documents"
  have stats: "describe_index_stats ?svc = Inr 0" by (simp add: example_index_services_def)
  have a: "populate_index ?svc [doc_long, doc_quickstart] [] =
     Some (Inr (),
       [ListIndexes, CreateIndex INDEX_NAME, DescribeIndex INDEX_NAME,
        DescribeIndex INDEX_NAME, DescribeIndex INDEX_NAME]
       @ snd (populate_batches ?svc [doc_long, doc_quickstart] 0 []) @ [DescribeIndexStats])"
    using populate_index_batches[of ?svc "[doc_long, doc_quickstart]" "[]" Map.empty]
    by (simp add: example_setup stats)
  have embed: "\<forall>texts. \<exists>es. embed_documents ?svc texts = Inr es \<and> length es = length texts"
    by (simp add: example_index_services_def)
  have accept: "\<forall>vs. upsert ?svc vs = Inr ()"
    by (simp add: example_index_services_def)
  have ready: "\<exists>pre. setup_pinecone_index ?svc [] = Some (Inr (), pre)"
    by (simp add: example_setup)
  have len: "length ?docs = 12" and n: "(11::nat) < length ?docs" and ne: "?docs \<noteq> []"
    by (simp_all add: six_documents_def)
  have doc: "?docs ! 11 = doc_quickstart"
    by (simp add: six_documents_def)
  have key: "''doc_'' @ str_nat 11 = ''doc_11''"
    by code_simp
  from populate_index_batches[of ?svc ?docs "[]" Map.empty] embed accept ne ready
  obtain r log' where ret: "populate_index ?svc ?docs [] = Some (r, log')"
      and entries: "\<forall>n < length ?docs.
                   \<exists>x. replay ?svc log' Map.empty (''doc_'' @ str_nat n) = Some x
                       \<and> indexed_as n (?docs ! n) (''doc_'' @ str_nat n, snd x)"
      and count: "card (dom (replay ?svc log' Map.empty)) = length ?docs"
    by blast
  from entries n obtain x where
      x: "replay ?svc log' Map.empty (''doc_'' @ str_nat 11) = Some x"
         "indexed_as 11 (?docs ! 11) (''doc_'' @ str_nat 11, snd x)"
    by blast
  have b: "\<exists>x. replay ?svc log' Map.empty ''doc_11'' = Some x
        \<and> vm_text (snd x) = ''Install the SDK and set the API key.''
        \<and> vm_title (snd x) = []
        \<and> vm_source (snd x) = ''https://inference-docs.cerebras.ai/quickstart''"
    using x unfolding key doc by (intro exI[of _ x]) (simp add: indexed_as_def doc_quickstart_def)
  have c: "card (dom (replay ?svc log' Map.empty)) = 12" using count len by simp
  show ?thesis
    using a b c ret unfolding example_batches by auto
qed

end
